theory Spec2Isabelle
  imports Complex_Main "HOL-Library.AList"
begin

section \<open>JavaScript values\<close>

text \<open>
  Strings of the program are lists of UTF-16 code units. The model uses \<open>string\<close>, whose
  characters carry the code units 0..255; the hash is defined on lists of code units of any
  size, so what is proved about it holds for every JavaScript string. Numbers are modelled
  as \<open>int\<close> where the code keeps them integral (indices, counts, the 32-bit hash) and as
  \<open>real\<close> where it computes scores and vector components: the rounding of IEEE doubles
  and of \<open>Float32Array\<close> cells is not modelled.
\<close>

definition charCodeAt :: "char \<Rightarrow> int" where
  "charCodeAt c = int (of_char c)"

text \<open>\<open>ToInt32\<close> of ECMAScript, applied by \<open><<\<close> and \<open>&\<close> to their operands and result.\<close>

definition toInt32 :: "int \<Rightarrow> int" where
  "toInt32 x = (x + 2 ^ 31) mod 2 ^ 32 - 2 ^ 31"

section \<open>embeddings.js: hashing of terms\<close>

definition vectorSize :: nat where
  "vectorSize = 384"

text \<open>
  The first loop of \<open>getWordPositions\<close>:
  \<open>hash = ((hash << 5) - hash + word.charCodeAt(i)) & 0xffffffff\<close>. The shift yields a
  signed 32-bit integer, the subtraction and addition are exact, and \<open>& 0xffffffff\<close>
  converts the sum back to a signed 32-bit integer.
\<close>

fun hashCodes :: "int \<Rightarrow> int list \<Rightarrow> int" where
  "hashCodes hash [] = hash"
| "hashCodes hash (c # cs) = hashCodes (toInt32 (toInt32 (hash * 32) - hash + c)) cs"

text \<open>The second loop: \<open>Math.abs(hash + i * 123456789) % this.vectorSize\<close> for \<open>i < count\<close>.\<close>

definition wordPosition :: "int \<Rightarrow> nat \<Rightarrow> nat" where
  "wordPosition hash i = nat (\<bar>hash + int i * 123456789\<bar> mod int vectorSize)"

definition getWordPositions :: "string \<Rightarrow> nat \<Rightarrow> nat list" where
  "getWordPositions word count =
     (let hash = hashCodes 0 (map charCodeAt word)
      in map (wordPosition hash) [0..<count])"

text \<open>
  The hashing scheme in the words of the specification: the hash is reduced modulo
  \<open>2^32\<close> after every character, and position \<open>i\<close> is
  \<open>(|hash| + i * 123456789) mod D\<close>.
\<close>

fun specHash :: "int \<Rightarrow> int list \<Rightarrow> int" where
  "specHash hash [] = hash"
| "specHash hash (c # cs) = specHash ((hash * 31 + c) mod 2 ^ 32) cs"

definition specPosition :: "int \<Rightarrow> nat \<Rightarrow> nat" where
  "specPosition hash i = nat ((\<bar>hash\<bar> + int i * 123456789) mod 384)"

section \<open>String operations of the host language\<close>

text \<open>
  \<open>\s\<close> of a regular expression and the characters removed by \<open>trim\<close> are the same
  set; among the code units below 256 these are tab, line feed, vertical tab, form feed,
  carriage return, space and no-break space.
\<close>

definition isSpace :: "char \<Rightarrow> bool" where
  "isSpace c = ((of_char c :: nat) \<in> {9, 10, 11, 12, 13, 32, 160})"

text \<open>\<open>\w\<close> is \<open>[A-Za-z0-9_]\<close>.\<close>

definition isWordChar :: "char \<Rightarrow> bool" where
  "isWordChar c =
     (let n = (of_char c :: nat)
      in (48 \<le> n \<and> n \<le> 57) \<or> (65 \<le> n \<and> n \<le> 90) \<or> n = 95 \<or> (97 \<le> n \<and> n \<le> 122))"

text \<open>
  \<open>toLowerCase\<close> on code units below 256: the letters A-Z and the Latin-1 capitals
  (192-214, 216-222) move up by 32, every other code unit stays.
\<close>

definition toLowerChar :: "char \<Rightarrow> char" where
  "toLowerChar c =
     (let n = (of_char c :: nat)
      in if (65 \<le> n \<and> n \<le> 90) \<or> (192 \<le> n \<and> n \<le> 214) \<or> (216 \<le> n \<and> n \<le> 222)
         then char_of (n + 32) else c)"

definition toLowerCase :: "string \<Rightarrow> string" where
  "toLowerCase s = map toLowerChar s"

text \<open>
  \<open>s.split(/\s+/)\<close>: the pieces between maximal runs of white space; a run at the start
  or at the end of the string leaves an empty piece there, and the empty string gives one
  empty piece.
\<close>

function splitWsFrom :: "string \<Rightarrow> string \<Rightarrow> string list" where
  "splitWsFrom cur [] = [rev cur]"
| "splitWsFrom cur (c # cs) =
     (if isSpace c then rev cur # splitWsFrom [] (dropWhile isSpace cs)
      else splitWsFrom (c # cur) cs)"
  by pat_completeness auto
termination
  by (relation "measure (\<lambda>(cur, s). length s)")
     (auto simp: length_dropWhile_le le_imp_less_Suc)

definition splitWs :: "string \<Rightarrow> string list" where
  "splitWs s = splitWsFrom [] s"

text \<open>\<open>ws.join(' ')\<close> and \<open>s.trim()\<close>.\<close>

fun joinSpace :: "string list \<Rightarrow> string" where
  "joinSpace [] = []"
| "joinSpace [w] = w"
| "joinSpace (w # ws) = w @ CHR '' '' # joinSpace ws"

definition trim :: "string \<Rightarrow> string" where
  "trim s = rev (dropWhile isSpace (rev (dropWhile isSpace s)))"

text \<open>
  \<open>xs.slice(start, end)\<close> with integral arguments: a negative argument counts from the
  end, both are clamped to the array, and an empty range gives the empty array.
\<close>

definition sliceIndex :: "nat \<Rightarrow> int \<Rightarrow> nat" where
  "sliceIndex n i = (if i < 0 then nat (max (int n + i) 0) else nat (min i (int n)))"

definition slice :: "'a list \<Rightarrow> int \<Rightarrow> int \<Rightarrow> 'a list" where
  "slice xs start end =
     (let s = sliceIndex (length xs) start; e = sliceIndex (length xs) end
      in take (e - s) (drop s xs))"

section \<open>pdfProcessor.js: the chunker\<close>

type_synonym vec = "real list"

record chunk =
  documentId :: nat
  chunkIndex :: nat
  chunk_text :: string
  tokenCount :: nat
  embedding :: "vec option"

record PDFProcessor =
  maxChunkSize :: int
  chunkOverlap :: int

text \<open>The constructor: 500 words per chunk, 50 words of overlap.\<close>

definition newPDFProcessor :: PDFProcessor where
  "newPDFProcessor = \<lparr>maxChunkSize = 500, chunkOverlap = 50\<rparr>"

text \<open>
  The \<open>while\<close> loop of \<open>chunkText\<close>, with the loop variables \<open>chunkIndex\<close> and
  \<open>startIndex\<close> as arguments and the chunks pushed from here on as result.
\<close>

function chunkLoop :: "PDFProcessor \<Rightarrow> nat \<Rightarrow> string list \<Rightarrow> nat \<Rightarrow> int \<Rightarrow> chunk list" where
  "chunkLoop p docId words cIndex startIndex =
     (if startIndex < int (length words) then
        (let endIndex = min (startIndex + maxChunkSize p) (int (length words));
             chunkWords = slice words startIndex endIndex;
             chunkText = joinSpace chunkWords;
             pushed = (if length (trim chunkText) > 0
                       then [\<lparr>documentId = docId, chunkIndex = cIndex, chunk_text = trim chunkText,
                              tokenCount = length chunkWords, embedding = None\<rparr>]
                       else []);
             cIndex' = (if length (trim chunkText) > 0 then cIndex + 1 else cIndex)
         in if endIndex \<ge> int (length words) then pushed
            else pushed @ chunkLoop p docId words cIndex'
                   (max (startIndex + maxChunkSize p - chunkOverlap p) (startIndex + 1)))
      else [])"
  by pat_completeness auto
termination
  by (relation "measure (\<lambda>(p, docId, words, cIndex, startIndex). nat (int (length words) - startIndex))")
     auto

text \<open>\<open>text.split(/\s+/).filter(word => word.length > 0)\<close>, the words that are chunked.\<close>

definition chunkWords :: "string \<Rightarrow> string list" where
  "chunkWords text = filter (\<lambda>word. length word > 0) (splitWs text)"

definition chunkText :: "PDFProcessor \<Rightarrow> string \<Rightarrow> nat \<Rightarrow> chunk list" where
  "chunkText p text docId = chunkLoop p docId (chunkWords text) 0 0"

text \<open>
  The token spans \<open>[startIndex, endIndex)\<close> of the windows for which the loop pushes a
  chunk, in the order of the chunks. The program does not store them; they are what the
  coverage property is stated on.
\<close>

function chunkSpans :: "PDFProcessor \<Rightarrow> string list \<Rightarrow> int \<Rightarrow> (int \<times> int) list" where
  "chunkSpans p words startIndex =
     (if startIndex < int (length words) then
        (let endIndex = min (startIndex + maxChunkSize p) (int (length words));
             pushed = (if length (trim (joinSpace (slice words startIndex endIndex))) > 0
                       then [(startIndex, endIndex)] else [])
         in if endIndex \<ge> int (length words) then pushed
            else pushed @ chunkSpans p words
                   (max (startIndex + maxChunkSize p - chunkOverlap p) (startIndex + 1)))
      else [])"
  by pat_completeness auto
termination
  by (relation "measure (\<lambda>(p, words, startIndex). nat (int (length words) - startIndex))")
     auto

section \<open>embeddings.js: the TF-IDF encoder\<close>

text \<open>
  A \<open>Map\<close> is an association list in insertion order: \<open>get\<close> is \<open>map_of\<close>, \<open>set\<close> is
  \<open>AList.update\<close>, which overwrites the value of a key that is present and appends a new
  key at the end. \<open>m.get(k) || d\<close> yields \<open>d\<close> when the key is missing and when its value
  is zero.
\<close>

definition getOr :: "('k \<times> 'v::zero) list \<Rightarrow> 'k \<Rightarrow> 'v \<Rightarrow> 'v" where
  "getOr m k d = (case map_of m k of None \<Rightarrow> d | Some v \<Rightarrow> if v = 0 then d else v)"

text \<open>\<open>new Set(xs)\<close>: the distinct elements in the order of their first occurrence.\<close>

definition newSet :: "'a list \<Rightarrow> 'a list" where
  "newSet xs = foldl (\<lambda>acc x. if x \<in> set acc then acc else acc @ [x]) [] xs"

datatype error = Error string | SyntaxError | TypeError

text \<open>
  The state of the generator. Its field \<open>vocabulary\<close> is cleared by \<open>initialize\<close> and
  otherwise neither read nor written, and \<open>vectorSize\<close> keeps the value 384 of the
  constructor: the first is left out and the second is the constant above.
\<close>

record EmbeddingGenerator =
  isInitialized :: bool
  idfScores :: "(string \<times> real) list"

definition newEmbeddingGenerator :: EmbeddingGenerator where
  "newEmbeddingGenerator = \<lparr>isInitialized = False, idfScores = []\<rparr>"

text \<open>\<open>initialize\<close> does nothing on an initialized generator; otherwise it clears the scores
  and sets the flag. The progress callback and the delay are not modelled.\<close>

definition initialize :: "EmbeddingGenerator \<Rightarrow> EmbeddingGenerator" where
  "initialize g = (if isInitialized g then g else \<lparr>isInitialized = True, idfScores = []\<rparr>)"

definition tokenize :: "string \<Rightarrow> string list" where
  "tokenize text =
     take 100
       (filter (\<lambda>word. length word > 2 \<and> length word < 20)
         (splitWs (map (\<lambda>c. if isWordChar c \<or> isSpace c then c else CHR '' '')
                       (toLowerCase text))))"

text \<open>\<open>m.set(word, (m.get(word) || 0) + 1)\<close>, the callback that counts one word.\<close>

definition countWord :: "(string \<times> nat) list \<Rightarrow> string \<Rightarrow> (string \<times> nat) list" where
  "countWord m word = AList.update word (getOr m word 0 + 1) m"

definition calculateTermFrequency :: "string list \<Rightarrow> (string \<times> real) list" where
  "calculateTermFrequency words =
     (let totalWords = length words
      in if totalWords = 0 then []
         else map (\<lambda>(word, count). (word, real count / real totalWords))
                (foldl countWord [] words))"

definition normalizeVector :: "vec \<Rightarrow> vec" where
  "normalizeVector vector =
     (let magnitude = sqrt (foldl (\<lambda>sum val. sum + val * val) 0 vector)
      in if magnitude = 0 then vector else map (\<lambda>x. x / magnitude) vector)"

text \<open>The body of the \<open>termFreq.forEach\<close> callback: one term is added at its positions.\<close>

definition addTerm :: "(string \<times> real) list \<Rightarrow> vec \<Rightarrow> string \<times> real \<Rightarrow> vec" where
  "addTerm idf vector entry =
     (let word = fst entry; tf = snd entry;
          positions = getWordPositions word 3;
          score = tf * getOr idf word 1
      in foldl (\<lambda>v pos. v[pos := v ! pos + score]) vector positions)"

definition generateTFIDFVector :: "EmbeddingGenerator \<Rightarrow> string \<Rightarrow> vec" where
  "generateTFIDFVector g text =
     (let words = tokenize text;
          termFreq = calculateTermFrequency words;
          vector = foldl (addTerm (idfScores g)) (replicate vectorSize 0) termFreq
      in normalizeVector vector)"

definition generateEmbedding :: "EmbeddingGenerator \<Rightarrow> string \<Rightarrow> error + vec" where
  "generateEmbedding g text =
     (if \<not> isInitialized g then Inl (Error ''Embedding system not initialized'')
      else Inr (generateTFIDFVector g text))"

text \<open>
  \<open>buildVocabulary\<close> first counts, for every word, the chunks whose token set holds it,
  then stores an IDF score for each counted word. Scores already in \<open>idfScores\<close> for
  other words stay.
\<close>

definition idfOf :: "nat \<Rightarrow> nat \<Rightarrow> real" where
  "idfOf totalDocs freq = ln (real totalDocs / (real freq + 1)) + 1"

definition countChunk :: "(string \<times> nat) list \<Rightarrow> chunk \<Rightarrow> (string \<times> nat) list" where
  "countChunk documentFreq c = foldl countWord documentFreq (newSet (tokenize (chunk_text c)))"

definition documentFrequency :: "chunk list \<Rightarrow> (string \<times> nat) list" where
  "documentFrequency cs = foldl countChunk [] cs"

definition storeIdf :: "nat \<Rightarrow> (string \<times> real) list \<Rightarrow> string \<times> nat \<Rightarrow> (string \<times> real) list" where
  "storeIdf totalDocs idf entry = AList.update (fst entry) (idfOf totalDocs (snd entry)) idf"

definition buildVocabulary :: "EmbeddingGenerator \<Rightarrow> chunk list \<Rightarrow> EmbeddingGenerator" where
  "buildVocabulary g cs =
     (let totalDocs = length cs;
          documentFreq = documentFrequency cs
      in g\<lparr>idfScores := foldl (storeIdf totalDocs) (idfScores g) documentFreq\<rparr>)"

text \<open>
  \<open>progressCallback?.(percent, message)\<close>. The callback is optional (\<open>None\<close> when the
  caller passes none) and is code of the caller: a call returns normally (\<open>None\<close>) or
  throws (\<open>Some\<close> of what it throws).
\<close>

type_synonym progressCallback = "(real \<Rightarrow> string \<Rightarrow> error option) option"

definition callProgress :: "progressCallback \<Rightarrow> real \<Rightarrow> string \<Rightarrow> error option" where
  "callProgress cb percent message = (case cb of None \<Rightarrow> None | Some f \<Rightarrow> f percent message)"

text \<open>The decimal digits of a number, as a template literal inserts them.\<close>

function showNat :: "nat \<Rightarrow> string" where
  "showNat n =
     (if n < 10 then [char_of (48 + n)]
      else showNat (n div 10) @ [char_of (48 + n mod 10)])"
  by pat_completeness auto
termination
  by (relation "measure id") auto

declare showNat.simps [simp del]

text \<open>
  An element of the array passed to \<open>generateEmbeddingsBatch\<close>: a chunk, whose \<open>text\<close> is
  a string, or an object whose \<open>text\<close> is not a string, on which \<open>tokenize\<close> throws a
  \<open>TypeError\<close> at \<open>text.toLowerCase()\<close>.
\<close>

datatype batchChunk = WithText chunk | WithoutText

text \<open>
  The \<open>chunks.forEach\<close> of \<open>buildVocabulary\<close> tokenizes the elements in order and throws
  at the first whose text is not a string, before any score is stored.
\<close>

fun chunksWithText :: "batchChunk list \<Rightarrow> error + chunk list" where
  "chunksWithText [] = Inr []"
| "chunksWithText (WithoutText # xs) = Inl TypeError"
| "chunksWithText (WithText c # xs) =
     (case chunksWithText xs of Inl e \<Rightarrow> Inl e | Inr cs \<Rightarrow> Inr (c # cs))"

text \<open>
  The loop of \<open>generateEmbeddingsBatch\<close> from index \<open>i\<close> on, with the vectors it pushes.
  The \<open>try\<close> block pushes the embedding of the chunk and then reports the progress; the
  \<open>catch\<close> block pushes a fresh \<open>Float32Array\<close> of zeros, whether the embedding or the
  report has thrown. The pauses of the loop are not modelled.
\<close>

fun embedLoop :: "EmbeddingGenerator \<Rightarrow> progressCallback \<Rightarrow> nat \<Rightarrow> nat \<Rightarrow> chunk list \<Rightarrow> vec list" where
  "embedLoop g cb totalChunks i [] = []"
| "embedLoop g cb totalChunks i (c # cs) =
     (case generateEmbedding g (chunk_text c) of
        Inl err \<Rightarrow> [replicate vectorSize 0]
      | Inr e \<Rightarrow>
          (case callProgress cb (70 + (real (i + 1) / real totalChunks) * 25)
                  (''Generating text vectors: '' @ showNat (i + 1) @ ''/'' @ showNat totalChunks) of
             None \<Rightarrow> [e]
           | Some err \<Rightarrow> [e, replicate vectorSize 0]))
     @ embedLoop g cb totalChunks (i + 1) cs"

text \<open>
  \<open>generateEmbeddingsBatch\<close>: the first report, \<open>buildVocabulary\<close> and the last report
  are outside the \<open>try\<close> block, so what they throw leaves the function. The result is the
  state of the generator after the call and the array returned or the exception thrown.
\<close>

definition generateEmbeddingsBatch ::
    "EmbeddingGenerator \<Rightarrow> batchChunk list \<Rightarrow> progressCallback
     \<Rightarrow> EmbeddingGenerator \<times> (error + vec list)" where
  "generateEmbeddingsBatch g chunks cb =
     (case callProgress cb 65 ''Analyzing document vocabulary...'' of
        Some e \<Rightarrow> (g, Inl e)
      | None \<Rightarrow>
          (case chunksWithText chunks of
             Inl e \<Rightarrow> (g, Inl e)
           | Inr cs \<Rightarrow>
               (let g' = buildVocabulary g cs;
                    embeddings = embedLoop g' cb (length cs) 0 cs
                in case callProgress cb 95 ''Finalizing embeddings...'' of
                     Some e \<Rightarrow> (g', Inl e)
                   | None \<Rightarrow> (g', Inr embeddings))))"

text \<open>
  \<open>cosineSimilarity\<close>: vectors of different length are cut to the shorter one, the loop
  accumulates the dot product and the two squared norms, and the quotient is clamped to
  \<open>[0, 1]\<close>.
\<close>

definition cosineSimilarity :: "vec \<Rightarrow> vec \<Rightarrow> real" where
  "cosineSimilarity a0 b0 =
     (let minLength = min (length a0) (length b0);
          a = (if length a0 \<noteq> length b0 then take minLength a0 else a0);
          b = (if length a0 \<noteq> length b0 then take minLength b0 else b0);
          acc = foldl (\<lambda>(dotProduct, normA, normB) i.
                         (dotProduct + a ! i * b ! i, normA + a ! i * a ! i, normB + b ! i * b ! i))
                      (0, 0, 0) [0..<length a];
          dotProduct = fst acc; normA = fst (snd acc); normB = snd (snd acc)
      in if normA = 0 \<or> normB = 0 then 0
         else max 0 (min 1 (dotProduct / (sqrt normA * sqrt normB))))"

section \<open>search.js: retrieval\<close>

record Document =
  filename :: string
  uploadDate :: nat

record DocumentDB =
  documents :: "(nat \<times> Document) list"
  chunks :: "chunk list"

definition getDocumentChunks :: "DocumentDB \<Rightarrow> nat \<Rightarrow> chunk list" where
  "getDocumentChunks db docId =
     sort_key chunkIndex (filter (\<lambda>c. documentId c = docId) (chunks db))"

definition getAllChunks :: "DocumentDB \<Rightarrow> chunk list" where
  "getAllChunks db = chunks db"

record VectorSearch =
  defaultTopK :: nat
  similarityThreshold :: real

definition newVectorSearch :: VectorSearch where
  "newVectorSearch = \<lparr>defaultTopK = 5, similarityThreshold = 3 / 10\<rparr>"

record SearchResult =
  chunk :: chunk
  similarity :: real
  documentName :: string
  resultUploadDate :: "nat option"

text \<open>
  The response of a search. The response for an empty set of chunks has no \<open>hasResults\<close>
  property, which reads as false.
\<close>

record 'r SearchResponse =
  results :: "'r list"
  query :: string
  totalSearched :: nat
  hasResults :: bool

text \<open>
  Step 2 of \<open>searchSimilarChunks\<close>, the chunks to search. \<open>documentId\<close> is \<open>null\<close> (here
  \<open>None\<close>) for a search over all documents; the test \<open>if (documentId)\<close> also sends the
  identifier 0 there.
\<close>

definition chunksToSearch :: "DocumentDB \<Rightarrow> nat option \<Rightarrow> chunk list" where
  "chunksToSearch db docId =
     (case docId of
        None \<Rightarrow> getAllChunks db
      | Some d \<Rightarrow> if d = 0 then getAllChunks db else getDocumentChunks db d)"

text \<open>
  Step 3, the similarity of one chunk: a stored embedding that is not a \<open>Float32Array\<close>
  is converted, which turns a missing embedding into the empty array.
\<close>

definition chunkSimilarity :: "vec \<Rightarrow> chunk \<Rightarrow> real" where
  "chunkSimilarity queryEmbedding c =
     cosineSimilarity queryEmbedding (case embedding c of None \<Rightarrow> [] | Some e \<Rightarrow> e)"

text \<open>Step 5, the document name and upload date added to a result.\<close>

definition enhanceResult :: "DocumentDB \<Rightarrow> chunk \<times> real \<Rightarrow> SearchResult" where
  "enhanceResult db r =
     \<lparr>chunk = fst r, similarity = snd r,
      documentName = (case map_of (documents db) (documentId (fst r)) of
                        None \<Rightarrow> ''Unknown Document''
                      | Some d \<Rightarrow> if filename d = [] then ''Unknown Document'' else filename d),
      resultUploadDate = map_option uploadDate (map_of (documents db) (documentId (fst r)))\<rparr>"

text \<open>
  Steps 3 to 5 on the query embedding and the chunks read: \<open>filter\<close>, the stable \<open>sort\<close>
  by descending similarity, and \<open>slice(0, topK)\<close>, where \<open>topK\<close> is a count.
\<close>

definition rankChunks :: "VectorSearch \<Rightarrow> DocumentDB \<Rightarrow> vec \<Rightarrow> chunk list \<Rightarrow> nat \<Rightarrow> SearchResult list" where
  "rankChunks vs db queryEmbedding cs topK =
     (let similarities = map (\<lambda>c. (c, chunkSimilarity queryEmbedding c)) cs;
          filteredResults =
            take topK (sort_key (\<lambda>r. - snd r)
                         (filter (\<lambda>r. snd r \<ge> similarityThreshold vs) similarities))
      in map (enhanceResult db) filteredResults)"

definition searchSimilarChunks ::
    "VectorSearch \<Rightarrow> EmbeddingGenerator \<Rightarrow> DocumentDB \<Rightarrow> string \<Rightarrow> nat option \<Rightarrow> nat
     \<Rightarrow> error + SearchResult SearchResponse" where
  "searchSimilarChunks vs g db queryText docId topK =
     (if \<not> isInitialized g
      then Inl (Error ''Embedding model not initialized. Please wait for model to load.'')
      else case generateEmbedding g queryText of
        Inl e \<Rightarrow> Inl e
      | Inr queryEmbedding \<Rightarrow>
          (let cs = chunksToSearch db docId
           in if length cs = 0
              then Inr \<lparr>results = [], query = queryText, totalSearched = 0, hasResults = False\<rparr>
              else (let enhancedResults = rankChunks vs db queryEmbedding cs topK
                    in Inr \<lparr>results = enhancedResults, query = queryText,
                            totalSearched = length cs,
                            hasResults = (length enhancedResults > 0)\<rparr>)))"

section \<open>Regular expressions built from keywords\<close>

text \<open>
  \<open>hybridSearch\<close> passes each keyword to \<open>new RegExp(keyword, 'g')\<close>, so the keyword is
  read as a pattern. The fragment of the pattern language given a semantics here has
  ordinary characters, the dot, and the greedy quantifiers \<open>?\<close>, \<open>*\<close> and \<open>+\<close> on one
  character. A quantifier with nothing to repeat is the syntax error the constructor
  throws. For a pattern that uses anything else (escapes, anchors, groups, classes,
  braces, alternatives, lazy quantifiers) the regular expressions of the host are a
  parameter: a function that gives, for the pattern and the text, the number of matches,
  or \<open>None\<close> where the constructor throws.
\<close>

type_synonym hostRegExp = "string \<Rightarrow> string \<Rightarrow> nat option"

datatype rxAtom = Lit char | AnyChar

datatype rxQuant = Once | Optional | Star | Plus

datatype rxParse = Pattern "(rxAtom \<times> rxQuant) list" | Invalid | Outside

definition isQuantChar :: "char \<Rightarrow> bool" where
  "isQuantChar c = (c \<in> {CHR ''?'', CHR ''*'', CHR ''+''})"

definition isOtherSyntaxChar :: "char \<Rightarrow> bool" where
  "isOtherSyntaxChar c =
     (c \<in> {CHR 0x5C, CHR ''^'', CHR ''$'', CHR ''('', CHR '')'', CHR ''['', CHR '']'',
            CHR ''{'', CHR ''}'', CHR ''|''})"

definition quantOf :: "char \<Rightarrow> rxQuant" where
  "quantOf q = (if q = CHR ''?'' then Optional else if q = CHR ''*'' then Star else Plus)"

definition atomOf :: "char \<Rightarrow> rxAtom" where
  "atomOf c = (if c = CHR ''.'' then AnyChar else Lit c)"

definition consItem :: "rxAtom \<times> rxQuant \<Rightarrow> rxParse \<Rightarrow> rxParse" where
  "consItem it p = (case p of Pattern its \<Rightarrow> Pattern (it # its) | Invalid \<Rightarrow> Invalid | Outside \<Rightarrow> Outside)"

fun parseRx :: "string \<Rightarrow> rxParse" where
  "parseRx [] = Pattern []"
| "parseRx [c] =
     (if isQuantChar c then Invalid
      else if isOtherSyntaxChar c then Outside
      else Pattern [(atomOf c, Once)])"
| "parseRx (c # q # rest) =
     (if isQuantChar c then Invalid
      else if isOtherSyntaxChar c then Outside
      else if isQuantChar q then
        (if rest \<noteq> [] \<and> hd rest = CHR ''?'' then Outside
         else consItem (atomOf c, quantOf q) (parseRx rest))
      else consItem (atomOf c, Once) (parseRx (q # rest)))"

text \<open>The dot matches every character but a line terminator.\<close>

fun atomOk :: "rxAtom \<Rightarrow> char \<Rightarrow> bool" where
  "atomOk (Lit d) c = (c = d)"
| "atomOk AnyChar c = (c \<noteq> CHR 0x0A \<and> c \<noteq> CHR 0x0D)"

text \<open>
  The backtracking matcher at one start position: the text left after the match the
  engine prefers, or \<open>None\<close> when there is no match. A quantified character first takes
  the character and falls back to taking none.
\<close>

fun matchHere :: "(rxAtom \<times> rxQuant) list \<Rightarrow> string \<Rightarrow> string option" where
  "matchHere [] s = Some s"
| "matchHere ((a, Once) # r) [] = None"
| "matchHere ((a, Once) # r) (c # cs) = (if atomOk a c then matchHere r cs else None)"
| "matchHere ((a, Optional) # r) [] = matchHere r []"
| "matchHere ((a, Optional) # r) (c # cs) =
     (if atomOk a c
      then (case matchHere r cs of Some t \<Rightarrow> Some t | None \<Rightarrow> matchHere r (c # cs))
      else matchHere r (c # cs))"
| "matchHere ((a, Star) # r) [] = matchHere r []"
| "matchHere ((a, Star) # r) (c # cs) =
     (if atomOk a c
      then (case matchHere ((a, Star) # r) cs of Some t \<Rightarrow> Some t | None \<Rightarrow> matchHere r (c # cs))
      else matchHere r (c # cs))"
| "matchHere ((a, Plus) # r) [] = None"
| "matchHere ((a, Plus) # r) (c # cs) =
     (if atomOk a c then matchHere ((a, Star) # r) cs else None)"

text \<open>
  \<open>text.match(re)\<close> with the \<open>g\<close> flag: the matches are searched from left to right,
  each search starts where the last match ended, and after an empty match it starts one
  character further.
\<close>

function countMatches :: "(rxAtom \<times> rxQuant) list \<Rightarrow> string \<Rightarrow> nat" where
  "countMatches its s =
     (case matchHere its s of
        Some rest \<Rightarrow>
          (if s = [] then 1
           else 1 + countMatches its (drop (max (length s - length rest) 1) s))
      | None \<Rightarrow> (if s = [] then 0 else countMatches its (tl s)))"
  by pat_completeness auto
termination
  by (relation "measure (\<lambda>(its, s). length s)") auto

datatype rxOutcome = Matches nat | ThrowsSyntaxError

definition regexMatchCount :: "hostRegExp \<Rightarrow> string \<Rightarrow> string \<Rightarrow> rxOutcome" where
  "regexMatchCount host keyword text =
     (case parseRx keyword of
        Pattern its \<Rightarrow> Matches (countMatches its text)
      | Invalid \<Rightarrow> ThrowsSyntaxError
      | Outside \<Rightarrow>
          (case host keyword text of Some n \<Rightarrow> Matches n | None \<Rightarrow> ThrowsSyntaxError))"

section \<open>search.js: hybrid search\<close>

record HybridResult = SearchResult +
  keywordScore :: real
  combinedScore :: real

definition queryKeywords :: "string \<Rightarrow> string list" where
  "queryKeywords queryText = filter (\<lambda>word. length word > 2) (splitWs (toLowerCase queryText))"

text \<open>The \<open>keywords.forEach\<close> loop; an exception of the constructor ends it.\<close>

fun keywordLoop :: "hostRegExp \<Rightarrow> string list \<Rightarrow> string \<Rightarrow> real \<Rightarrow> error + real" where
  "keywordLoop host [] text score = Inr score"
| "keywordLoop host (keyword # ks) text score =
     (case regexMatchCount host keyword text of
        Matches n \<Rightarrow> keywordLoop host ks text (score + real n * (1 / 10))
      | ThrowsSyntaxError \<Rightarrow> Inl SyntaxError)"

text \<open>The callback of \<open>vectorResults.results.map\<close>, applied to the results in order.\<close>

fun enhanceLoop :: "hostRegExp \<Rightarrow> string list \<Rightarrow> SearchResult list \<Rightarrow> error + HybridResult list" where
  "enhanceLoop host keywords [] = Inr []"
| "enhanceLoop host keywords (r # rs) =
     (case keywordLoop host keywords (toLowerCase (chunk_text (chunk r))) 0 of
        Inl e \<Rightarrow> Inl e
      | Inr kw \<Rightarrow>
          (case enhanceLoop host keywords rs of
             Inl e \<Rightarrow> Inl e
           | Inr hs \<Rightarrow>
               Inr (\<lparr>chunk = chunk r, similarity = similarity r,
                     documentName = documentName r, resultUploadDate = resultUploadDate r,
                     keywordScore = kw, combinedScore = similarity r + kw\<rparr> # hs)))"

definition hybridSearch ::
    "hostRegExp \<Rightarrow> VectorSearch \<Rightarrow> EmbeddingGenerator \<Rightarrow> DocumentDB \<Rightarrow> string \<Rightarrow> nat option
     \<Rightarrow> nat \<Rightarrow> error + HybridResult SearchResponse" where
  "hybridSearch host vs g db queryText docId topK =
     (case searchSimilarChunks vs g db queryText docId (topK * 2) of
        Inl e \<Rightarrow> Inl e
      | Inr vectorResults \<Rightarrow>
          (let keywords = queryKeywords queryText
           in case enhanceLoop host keywords (results vectorResults) of
                Inl e \<Rightarrow> Inl e
              | Inr enhancedResults \<Rightarrow>
                  Inr \<lparr>results = take topK (sort_key (\<lambda>r. - combinedScore r) enhancedResults),
                       query = queryText,
                       totalSearched = totalSearched vectorResults,
                       hasResults = (length enhancedResults > 0)\<rparr>))"

text \<open>The number of matches the loop adds for one keyword, where the constructor returns.\<close>

definition matchCount :: "hostRegExp \<Rightarrow> string \<Rightarrow> string \<Rightarrow> nat" where
  "matchCount host keyword text =
     (case regexMatchCount host keyword text of Matches n \<Rightarrow> n | ThrowsSyntaxError \<Rightarrow> 0)"

text \<open>
  The occurrence count in the words of the claim: the number of times the keyword occurs
  as a substring of the text, the occurrences counted from left to right without overlap.
\<close>

fun countOccurrences :: "string \<Rightarrow> string \<Rightarrow> nat" where
  "countOccurrences keyword [] = 0"
| "countOccurrences keyword (c # cs) =
     (if keyword \<noteq> [] \<and> take (length keyword) (c # cs) = keyword
      then 1 + countOccurrences keyword (drop (length keyword) (c # cs))
      else countOccurrences keyword cs)"

section \<open>Notions used in the statements\<close>

text \<open>The dot product of the first \<open>n\<close> components of two vectors, and the L2 norm.\<close>

definition dotUpto :: "nat \<Rightarrow> vec \<Rightarrow> vec \<Rightarrow> real" where
  "dotUpto n a b = (\<Sum>i<n. a ! i * b ! i)"

definition l2norm :: "vec \<Rightarrow> real" where
  "l2norm v = sqrt (\<Sum>x\<leftarrow>v. x * x)"

section \<open>Example data\<close>

text \<open>The two-chunk corpus of the specification's example.\<close>

definition demoChunks :: "chunk list" where
  "demoChunks =
     [\<lparr>documentId = 1, chunkIndex = 0, chunk_text = ''cat dog'', tokenCount = 2, embedding = None\<rparr>,
      \<lparr>documentId = 1, chunkIndex = 1, chunk_text = ''dog bird'', tokenCount = 2, embedding = None\<rparr>]"

text \<open>
  The document frequency in the words of the specification: the number of chunks of the
  batch that contain the term at least once, a chunk containing the terms its
  tokenization yields.
\<close>

definition dfSpec :: "string \<Rightarrow> chunk list \<Rightarrow> nat" where
  "dfSpec w cs = length (filter (\<lambda>c. w \<in> set (tokenize (chunk_text c))) cs)"

text \<open>
  A store of three chunks whose stored embeddings have similarity 29/100, 3/10 and 1 with
  the embedding of a query whose only token is \<open>cat\<close>, and a generator that has been
  initialized.
\<close>

definition demoDB :: DocumentDB where
  "demoDB =
     \<lparr>documents = [(1, \<lparr>filename = ''pets.pdf'', uploadDate = 0\<rparr>)],
      chunks =
        [\<lparr>documentId = 1, chunkIndex = 0, chunk_text = ''bird'', tokenCount = 1,
          embedding = Some [29, sqrt 9159]\<rparr>,
         \<lparr>documentId = 1, chunkIndex = 1, chunk_text = ''a cat care'', tokenCount = 3,
          embedding = Some [3, sqrt 91]\<rparr>,
         \<lparr>documentId = 1, chunkIndex = 2, chunk_text = ''dog'', tokenCount = 1,
          embedding = Some [1]\<rparr>]\<rparr>"

definition readyGenerator :: EmbeddingGenerator where
  "readyGenerator = initialize newEmbeddingGenerator"

text \<open>
  A store with one chunk whose text holds \<open>cat\<close> and \<open>care\<close> and whose stored embedding
  has similarity 1 with the embedding of a query whose only token is \<open>cat\<close>.
\<close>

definition careDB :: DocumentDB where
  "careDB =
     \<lparr>documents = [(1, \<lparr>filename = ''pets.pdf'', uploadDate = 0\<rparr>)],
      chunks =
        [\<lparr>documentId = 1, chunkIndex = 0, chunk_text = ''a cat care'', tokenCount = 3,
          embedding = Some [1]\<rparr>]\<rparr>"

text \<open>A progress callback that throws on the report of 82.5 percent and returns otherwise.\<close>

definition failingCallback :: progressCallback where
  "failingCallback = Some (\<lambda>percent message. if percent = 165 / 2 then Some (Error ''progress'') else None)"

text \<open>The pieces that \<open>chunkText\<close> chunks: non-empty and free of white space.\<close>

definition wordsOK :: "string list \<Rightarrow> bool" where
  "wordsOK ws = (\<forall>w \<in> set ws. w \<noteq> [] \<and> (\<forall>c \<in> set w. \<not> isSpace c))"

text \<open>The end of the window that starts at \<open>startIndex\<close>, and the start of the next window.\<close>

definition windowEnd :: "PDFProcessor \<Rightarrow> string list \<Rightarrow> int \<Rightarrow> int" where
  "windowEnd p ws startIndex = min (startIndex + maxChunkSize p) (int (length ws))"

definition nextStart :: "PDFProcessor \<Rightarrow> int \<Rightarrow> int" where
  "nextStart p startIndex = max (startIndex + maxChunkSize p - chunkOverlap p) (startIndex + 1)"

text \<open>A keyword without characters that have a meaning in a regular expression.\<close>

definition plainKeyword :: "string \<Rightarrow> bool" where
  "plainKeyword k = (\<forall>c \<in> set k. \<not> isQuantChar c \<and> \<not> isOtherSyntaxChar c \<and> c \<noteq> CHR ''.'')"

section \<open>Properties of the term hash\<close>

lemma toInt32_cong: "x mod 2 ^ 32 = y mod 2 ^ 32 \<Longrightarrow> toInt32 x = toInt32 y"
  unfolding toInt32_def by (metis mod_add_cong)

lemma toInt32_mod: "toInt32 x mod 2 ^ 32 = x mod 2 ^ 32"
  unfolding toInt32_def by (simp add: mod_simps)

lemma toInt32_range: "- (2 ^ 31) \<le> toInt32 x \<and> toInt32 x < 2 ^ 31"
  unfolding toInt32_def by simp

lemma toInt32_id: "- (2 ^ 31) \<le> x \<Longrightarrow> x < 2 ^ 31 \<Longrightarrow> toInt32 x = x"
  unfolding toInt32_def by simp

lemma hash_step: "toInt32 (toInt32 (toInt32 h' * 32) - toInt32 h' + c) = toInt32 ((h' * 31 + c) mod 2 ^ 32)"
proof (rule toInt32_cong)
  have b: "toInt32 h' mod 2 ^ 32 = h' mod 2 ^ 32"
    by (rule toInt32_mod)
  have "toInt32 (toInt32 h' * 32) mod 2 ^ 32 = (toInt32 h' * 32) mod 2 ^ 32"
    by (rule toInt32_mod)
  also have "\<dots> = (h' * 32) mod 2 ^ 32"
    by (rule mod_mult_cong [OF b refl])
  finally have a: "toInt32 (toInt32 h' * 32) mod 2 ^ 32 = (h' * 32) mod 2 ^ 32" .
  have "(toInt32 (toInt32 h' * 32) - toInt32 h' + c) mod 2 ^ 32 = (h' * 32 - h' + c) mod 2 ^ 32"
    by (intro mod_add_cong mod_diff_cong a b refl)
  also have "h' * 32 - h' + c = h' * 31 + c"
    by simp
  finally show "(toInt32 (toInt32 h' * 32) - toInt32 h' + c) mod 2 ^ 32
                = (h' * 31 + c) mod 2 ^ 32 mod 2 ^ 32"
    by simp
qed

lemma hashCodes_specHash: "hashCodes (toInt32 h') cs = toInt32 (specHash h' cs)"
proof (induction cs arbitrary: h')
  case Nil
  show ?case by simp
next
  case (Cons c cs)
  show ?case by (simp add: hash_step Cons.IH)
qed

lemma toInt32_0: "toInt32 0 = 0"
  by (simp add: toInt32_def)

lemma specHash_range: "0 \<le> h \<Longrightarrow> h < 2 ^ 32 \<Longrightarrow> 0 \<le> specHash h cs \<and> specHash h cs < 2 ^ 32"
  by (induction cs arbitrary: h) simp_all

lemma wordPosition_less: "wordPosition hash i < vectorSize"
  unfolding wordPosition_def vectorSize_def by simp

lemma getWordPositions_less: "p \<in> set (getWordPositions word count) \<Longrightarrow> p < vectorSize"
  unfolding getWordPositions_def by (auto simp: Let_def wordPosition_less)

lemma hashCodes_cat: "hashCodes 0 (map charCodeAt ''cat'') = 98262"
  by (simp add: charCodeAt_def toInt32_def)

lemma specHash_cat: "specHash 0 (map charCodeAt ''cat'') = 98262"
  by (simp add: charCodeAt_def)

lemma hashCodes_zzzzzz: "hashCodes 0 (map charCodeAt ''zzzzzz'') = - 685785664"
  by (simp add: charCodeAt_def toInt32_def)

lemma specHash_zzzzzz: "specHash 0 (map charCodeAt ''zzzzzz'') = 3609181632"
  by (simp add: charCodeAt_def)

lemma upt_3: "[0..<3] = [0, 1, 2]"
  by (simp add: upt_rec)

text \<open>
  C2 (as amended). For every term, the hash the encoder computes is the signed 32-bit
  integer congruent modulo \<open>2^32\<close> to the rolling hash \<open>hash * 31 + charCode\<close>: it lies in
  \<open>[-2^31, 2^31)\<close>, not in \<open>[0, 2^32)\<close>. With \<open>K = 3\<close> the positions are
  \<open>|hash + i * 123456789| mod 384\<close> for \<open>i = 0, 1, 2\<close>: the absolute value is taken of the
  sum. Whenever the rolling hash modulo \<open>2^32\<close> is below \<open>2^31\<close> these are the positions
  \<open>(|hash| + i * 123456789) mod 384\<close> of the specification.
\<close>

theorem getWordPositions_scheme:
  "hashCodes 0 cs = toInt32 (specHash 0 cs)
   \<and> - (2 ^ 31) \<le> hashCodes 0 cs \<and> hashCodes 0 cs < 2 ^ 31
   \<and> getWordPositions word 3 =
       (let h = hashCodes 0 (map charCodeAt word)
        in [nat (\<bar>h\<bar> mod 384), nat (\<bar>h + 123456789\<bar> mod 384), nat (\<bar>h + 2 * 123456789\<bar> mod 384)])
   \<and> (specHash 0 (map charCodeAt word) < 2 ^ 31 \<longrightarrow>
        getWordPositions word 3 = map (specPosition (specHash 0 (map charCodeAt word))) [0, 1, 2])"
proof (intro conjI impI)
  show eq: "hashCodes 0 cs = toInt32 (specHash 0 cs)" for cs
    using hashCodes_specHash [of 0 cs] by (simp add: toInt32_0)
  show "- (2 ^ 31) \<le> hashCodes 0 cs" "hashCodes 0 cs < 2 ^ 31"
    using toInt32_range [of "specHash 0 cs"] by (simp_all add: eq)
  show "getWordPositions word 3 =
       (let h = hashCodes 0 (map charCodeAt word)
        in [nat (\<bar>h\<bar> mod 384), nat (\<bar>h + 123456789\<bar> mod 384), nat (\<bar>h + 2 * 123456789\<bar> mod 384)])"
    by (simp add: getWordPositions_def wordPosition_def vectorSize_def upt_3 Let_def)
next
  assume small: "specHash 0 (map charCodeAt word) < 2 ^ 31"
  have "0 \<le> specHash 0 (map charCodeAt word)"
    using specHash_range [of 0 "map charCodeAt word"] by simp
  with small have "toInt32 (specHash 0 (map charCodeAt word)) = specHash 0 (map charCodeAt word)"
    by (intro toInt32_id) simp_all
  then have h: "hashCodes 0 (map charCodeAt word) = specHash 0 (map charCodeAt word)"
    using hashCodes_specHash [of 0 "map charCodeAt word"] by (simp add: toInt32_0)
  moreover have "0 \<le> specHash 0 (map charCodeAt word)"
    using specHash_range [of 0 "map charCodeAt word"] by simp
  ultimately show "getWordPositions word 3 = map (specPosition (specHash 0 (map charCodeAt word))) [0, 1, 2]"
    by (simp add: getWordPositions_def wordPosition_def specPosition_def vectorSize_def upt_3 Let_def)
qed

theorem getWordPositions_scheme_witness:
  "specHash 0 (map charCodeAt ''cat'') < 2 ^ 31
   \<and> getWordPositions ''cat'' 3 = map (specPosition (specHash 0 (map charCodeAt ''cat''))) [0, 1, 2]
   \<and> getWordPositions ''cat'' 3 = [342, 363, 0]"
proof -
  have small: "specHash 0 (map charCodeAt ''cat'') < 2 ^ 31"
    unfolding specHash_cat by simp
  have eq: "getWordPositions ''cat'' 3 = map (specPosition (specHash 0 (map charCodeAt ''cat''))) [0, 1, 2]"
    using getWordPositions_scheme [of "[]" "''cat''"] small by (elim conjE) (erule mp)
  have "map (specPosition (specHash 0 (map charCodeAt ''cat''))) [0, 1, 2] = [342, 363, 0]"
    unfolding specHash_cat by (simp add: specPosition_def)
  with eq small show ?thesis by simp
qed

text \<open>
  The term \<open>zzzzzz\<close> has a negative 32-bit hash. The code yields the positions 64, 43, 22;
  the formula of the specification yields 192, 213, 234 on the hash reduced into
  \<open>[0, 2^32)\<close> and 64, 85, 106 on the signed hash.
\<close>

theorem getWordPositions_spec_counterexample:
  "getWordPositions ''zzzzzz'' 3 = [64, 43, 22]
   \<and> map (specPosition (specHash 0 (map charCodeAt ''zzzzzz''))) [0, 1, 2] = [192, 213, 234]
   \<and> map (specPosition (hashCodes 0 (map charCodeAt ''zzzzzz''))) [0, 1, 2] = [64, 85, 106]"
  unfolding getWordPositions_def hashCodes_zzzzzz specHash_zzzzzz Let_def upt_3
  by (simp add: wordPosition_def specPosition_def vectorSize_def)

section \<open>Properties of the similarity function\<close>

lemma cosine_loop:
  "foldl (\<lambda>(dotProduct, normA, normB) i.
            (dotProduct + a ! i * b ! i, normA + a ! i * a ! i, normB + b ! i * b ! i))
         (d0, na0, nb0) [0..<n]
   = (d0 + (\<Sum>i<n. a ! i * b ! i), na0 + (\<Sum>i<n. a ! i * a ! i), nb0 + (\<Sum>i<n. b ! i * b ! i :: real))"
  by (induction n) simp_all

lemma cosineSimilarity_sums:
  "cosineSimilarity a b =
     (let n = min (length a) (length b)
      in if dotUpto n a a = 0 \<or> dotUpto n b b = 0 then 0
         else max 0 (min 1 (dotUpto n a b / (sqrt (dotUpto n a a) * sqrt (dotUpto n b b)))))"
proof (cases "length a = length b")
  case True
  then show ?thesis
    by (simp add: cosineSimilarity_def cosine_loop dotUpto_def Let_def)
next
  case False
  then show ?thesis
    by (simp add: cosineSimilarity_def cosine_loop dotUpto_def Let_def)
qed

lemma dotUpto_commute: "dotUpto n a b = dotUpto n b a"
  by (simp add: dotUpto_def mult.commute)

lemma dotUpto_self_nonneg: "0 \<le> dotUpto n a a"
  by (simp add: dotUpto_def sum_nonneg)

lemma dotUpto_self_pos:
  assumes "i < n" "a ! i \<noteq> 0"
  shows "0 < dotUpto n a a"
proof -
  have "0 < a ! i * a ! i" using assms(2) by (auto simp: zero_less_mult_iff)
  also have "a ! i * a ! i \<le> (\<Sum>j<n. a ! j * a ! j)"
    by (rule member_le_sum) (use assms(1) in auto)
  finally show ?thesis by (simp add: dotUpto_def)
qed

text \<open>
  C8. The similarity function is symmetric, and the similarity of a vector that has a
  non-zero component with itself is 1 (over the reals, where the tolerance is zero).
\<close>

theorem cosineSimilarity_symmetric_self:
  "cosineSimilarity a b = cosineSimilarity b a
   \<and> ((\<exists>x \<in> set v. x \<noteq> 0) \<longrightarrow> cosineSimilarity v v = 1)"
proof (intro conjI impI)
  show "cosineSimilarity a b = cosineSimilarity b a"
    by (simp add: cosineSimilarity_sums Let_def dotUpto_commute [of _ a b] min.commute mult.commute disj_commute)
next
  assume "\<exists>x \<in> set v. x \<noteq> 0"
  then obtain i where i: "i < length v" "v ! i \<noteq> 0"
    by (auto simp: in_set_conv_nth)
  then have pos: "0 < dotUpto (length v) v v"
    by (rule dotUpto_self_pos)
  then have "sqrt (dotUpto (length v) v v) * sqrt (dotUpto (length v) v v) = dotUpto (length v) v v"
    by simp
  with pos show "cosineSimilarity v v = 1"
    by (simp add: cosineSimilarity_sums Let_def)
qed

theorem cosineSimilarity_symmetric_self_witness:
  "cosineSimilarity [3, 4] [3, 4] = 1
   \<and> cosineSimilarity [3, 4] [4, 3] = cosineSimilarity [4, 3] [3, 4]"
proof -
  have nz: "\<exists>x \<in> set [3, 4 :: real]. x \<noteq> 0" by simp
  from cosineSimilarity_symmetric_self [of "[3, 4]" "[4, 3]" "[3, 4]"] nz
  show ?thesis by blast
qed

section \<open>Properties of the encoder\<close>

lemma sumsq_foldl: "foldl (\<lambda>sum val. sum + val * val) s v = s + (\<Sum>x\<leftarrow>v. x * x :: real)"
  by (induction v arbitrary: s) simp_all

lemma sumsq_nonneg: "0 \<le> (\<Sum>x\<leftarrow>v. x * x :: real)"
  by (rule sum_list_nonneg) auto

lemma sumsq_zero_iff: "(\<Sum>x\<leftarrow>v. x * x :: real) = 0 \<longleftrightarrow> (\<forall>x \<in> set v. x = 0)"
  by (induction v) (auto simp: add_nonneg_eq_0_iff sumsq_nonneg)

lemma all_zero_replicate: "(\<forall>x \<in> set v. x = 0) \<longleftrightarrow> v = replicate (length v) (0::real)"
  by (induction v) auto

lemma l2norm_zero_iff: "l2norm v = 0 \<longleftrightarrow> v = replicate (length v) 0"
  by (simp add: l2norm_def sumsq_zero_iff all_zero_replicate)

lemma normalizeVector_zero: "l2norm v = 0 \<Longrightarrow> normalizeVector v = v"
  by (simp add: normalizeVector_def sumsq_foldl l2norm_def)

lemma sumsq_scaled: "(\<Sum>x\<leftarrow>v. (x / m) * (x / m) :: real) = (\<Sum>x\<leftarrow>v. x * x) / (m * m)"
  by (induction v) (simp_all add: add_divide_distrib)

lemma sumsq_div: "(\<Sum>x\<leftarrow>v. x * x / c :: real) = (\<Sum>x\<leftarrow>v. x * x) / c"
  by (induction v) (simp_all add: add_divide_distrib)

lemma normalizeVector_unit:
  assumes "l2norm v \<noteq> 0"
  shows "l2norm (normalizeVector v) = 1"
proof -
  let ?q = "\<Sum>x\<leftarrow>v. x * x"
  have q: "0 < ?q"
    using assms sumsq_nonneg [of v] by (auto simp: l2norm_def less_le)
  have "normalizeVector v = map (\<lambda>x. x / sqrt ?q) v"
    using assms by (simp add: normalizeVector_def sumsq_foldl l2norm_def)
  then have "l2norm (normalizeVector v) = sqrt (\<Sum>x\<leftarrow>v. (x / sqrt ?q) * (x / sqrt ?q))"
    by (simp only: l2norm_def map_map comp_def)
  also have "\<dots> = sqrt (?q / (sqrt ?q * sqrt ?q))"
    by (simp only: sumsq_scaled)
  also have "\<dots> = 1" using q by simp
  finally show ?thesis .
qed

lemma normalizeVector_length: "length (normalizeVector v) = length v"
  by (simp add: normalizeVector_def Let_def)

lemma normalizeVector_cases:
  "normalizeVector v = replicate (length v) 0 \<or> l2norm (normalizeVector v) = 1"
proof (cases "l2norm v = 0")
  case True
  then show ?thesis by (metis normalizeVector_zero l2norm_zero_iff)
next
  case False
  then show ?thesis by (simp add: normalizeVector_unit)
qed

lemma addPositions_length: "length (foldl (\<lambda>v pos. v[pos := v ! pos + score]) vector ps) = length vector"
  by (induction ps arbitrary: vector) simp_all

lemma addTerm_length: "length (addTerm idf vector entry) = length vector"
  by (simp add: addTerm_def Let_def addPositions_length)

lemma foldl_addTerm_length: "length (foldl (addTerm idf) vector tf) = length vector"
  by (induction tf arbitrary: vector) (simp_all add: addTerm_length)

lemma generateTFIDFVector_length: "length (generateTFIDFVector g text) = vectorSize"
  by (simp add: generateTFIDFVector_def Let_def normalizeVector_length foldl_addTerm_length)

lemma update_set_cases: "x \<in> set (AList.update k v al) \<Longrightarrow> x = (k, v) \<or> x \<in> set al"
  by (induction al) (auto split: if_splits)

lemma update_nonempty: "AList.update k v al \<noteq> []"
  by (cases al) auto

lemma count_fold_pos:
  "(\<forall>e \<in> set acc. 0 < snd e) \<Longrightarrow>
   \<forall>e \<in> set (foldl countWord acc ws).
      0 < snd e"
proof (induction ws arbitrary: acc)
  case Nil
  then show ?case by simp
next
  case (Cons w ws)
  have "\<forall>e \<in> set (countWord acc w). 0 < snd e"
    using Cons.prems by (auto simp: countWord_def dest!: update_set_cases)
  then show ?case using Cons.IH by simp
qed

lemma count_fold_nonempty:
  "acc \<noteq> [] \<or> ws \<noteq> [] \<Longrightarrow>
   foldl countWord acc ws \<noteq> []"
proof (induction ws arbitrary: acc)
  case Nil
  then show ?case by simp
next
  case (Cons w ws)
  show ?case using Cons.IH [of "countWord acc w"]
    by (simp add: update_nonempty countWord_def)
qed

lemma count_fold_keys:
  "fst ` set (foldl countWord acc ws)
   = fst ` set acc \<union> set ws"
  by (induction ws arbitrary: acc) (auto simp: dom_update countWord_def)

lemma calculateTermFrequency_empty: "calculateTermFrequency [] = []"
  by (simp add: calculateTermFrequency_def)

lemma calculateTermFrequency_pos:
  assumes "ws \<noteq> []"
  shows "calculateTermFrequency ws \<noteq> []"
    and "\<forall>e \<in> set (calculateTermFrequency ws). 0 < snd e \<and> fst e \<in> set ws"
proof -
  let ?c = "foldl countWord [] ws"
  have eq: "calculateTermFrequency ws = map (\<lambda>(word, count). (word, real count / real (length ws))) ?c"
    using assms by (simp add: calculateTermFrequency_def Let_def)
  have ne: "?c \<noteq> []" using assms by (intro count_fold_nonempty) simp
  have pos: "\<forall>e \<in> set ?c. 0 < snd e" by (rule count_fold_pos) simp
  have keys: "fst ` set ?c = set ws" using count_fold_keys [of "[]" ws] by simp
  show "calculateTermFrequency ws \<noteq> []" using ne by (simp add: eq)
  show "\<forall>e \<in> set (calculateTermFrequency ws). 0 < snd e \<and> fst e \<in> set ws"
  proof
    fix e assume "e \<in> set (calculateTermFrequency ws)"
    then have "e \<in> (\<lambda>(word, count). (word, real count / real (length ws))) ` set ?c"
      by (simp only: eq set_map)
    then obtain x where x: "x \<in> set ?c"
      and ex: "e = (\<lambda>(word, count). (word, real count / real (length ws))) x"
      by (rule imageE)
    have e: "e = (fst x, real (snd x) / real (length ws))"
      by (simp add: ex case_prod_beta)
    have "0 < snd x" using pos x by blast
    moreover have "fst x \<in> fst ` set ?c" using x by (rule imageI)
    then have "fst x \<in> set ws" by (simp only: keys)
    moreover have "0 < length ws" using assms by simp
    ultimately show "0 < snd e \<and> fst e \<in> set ws" by (simp add: e)
  qed
qed


lemma addPositions_mono:
  "0 \<le> score \<Longrightarrow> i < length vector \<Longrightarrow>
   vector ! i \<le> foldl (\<lambda>v pos. v[pos := v ! pos + score]) vector ps ! (i::nat)"
  for score :: real
proof (induction ps arbitrary: vector)
  case Nil
  then show ?case by simp
next
  case (Cons p ps)
  have "vector ! i \<le> (vector[p := vector ! p + score]) ! i"
    using Cons.prems by (cases "i = p") simp_all
  also have "\<dots> \<le> foldl (\<lambda>v pos. v[pos := v ! pos + score]) (vector[p := vector ! p + score]) ps ! i"
    using Cons.prems by (intro Cons.IH) simp_all
  finally show ?case by simp
qed

lemma addPositions_hit:
  "0 < score \<Longrightarrow> p \<in> set ps \<Longrightarrow> p < length vector \<Longrightarrow>
   vector ! p < foldl (\<lambda>v pos. v[pos := v ! pos + score]) vector ps ! (p::nat)"
  for score :: real
proof (induction ps arbitrary: vector)
  case Nil
  then show ?case by simp
next
  case (Cons q ps)
  show ?case
  proof (cases "q = p")
    case True
    have "vector ! p < (vector[p := vector ! p + score]) ! p"
      using Cons.prems by simp
    also have "\<dots> \<le> foldl (\<lambda>v pos. v[pos := v ! pos + score]) (vector[p := vector ! p + score]) ps ! p"
      using Cons.prems by (intro addPositions_mono) simp_all
    finally show ?thesis using True by simp
  next
    case False
    then have "p \<in> set ps" using Cons.prems by simp
    then have "(vector[q := vector ! q + score]) ! p
               < foldl (\<lambda>v pos. v[pos := v ! pos + score]) (vector[q := vector ! q + score]) ps ! p"
      using Cons.prems by (intro Cons.IH) simp_all
    then show ?thesis using False by simp
  qed
qed

lemma getWordPositions_3_hd:
  "wordPosition (hashCodes 0 (map charCodeAt word)) 0 \<in> set (getWordPositions word 3)"
  by (simp add: getWordPositions_def Let_def upt_3)

lemma addTerm_mono:
  assumes "0 \<le> snd entry * getOr idf (fst entry) 1" "i < length vector"
  shows "vector ! i \<le> addTerm idf vector entry ! i"
  using assms by (simp add: addTerm_def Let_def addPositions_mono)

lemma addTerm_hit:
  assumes "0 < snd entry * getOr idf (fst entry) 1" "length vector = vectorSize"
  shows "\<exists>p < vectorSize. vector ! p < addTerm idf vector entry ! p"
proof -
  let ?p = "wordPosition (hashCodes 0 (map charCodeAt (fst entry))) 0"
  have "?p < vectorSize" by (rule wordPosition_less)
  moreover have "vector ! ?p < addTerm idf vector entry ! ?p"
    unfolding addTerm_def Let_def
    using assms wordPosition_less [of "hashCodes 0 (map charCodeAt (fst entry))" 0]
    by (intro addPositions_hit getWordPositions_3_hd) simp_all
  ultimately show ?thesis by blast
qed

lemma foldl_addTerm_mono:
  "(\<forall>e \<in> set tf. 0 < snd e * getOr idf (fst e) 1) \<Longrightarrow> i < length vector \<Longrightarrow>
   vector ! i \<le> foldl (addTerm idf) vector tf ! i"
proof (induction tf arbitrary: vector)
  case Nil
  then show ?case by simp
next
  case (Cons e tf)
  have "vector ! i \<le> addTerm idf vector e ! i"
    using Cons.prems by (intro addTerm_mono) (simp_all add: less_imp_le)
  also have "\<dots> \<le> foldl (addTerm idf) (addTerm idf vector e) tf ! i"
    using Cons.prems by (intro Cons.IH) (simp_all add: addTerm_length)
  finally show ?case by simp
qed

lemma foldl_addTerm_pos:
  assumes "tf \<noteq> []" "\<forall>e \<in> set tf. 0 < snd e * getOr idf (fst e) 1"
  shows "\<exists>p < vectorSize. 0 < foldl (addTerm idf) (replicate vectorSize 0) tf ! p"
proof -
  obtain e rest where tf: "tf = e # rest" using assms(1) by (cases tf) auto
  let ?z = "replicate vectorSize (0::real)"
  obtain p where p: "p < vectorSize" "?z ! p < addTerm idf ?z e ! p"
    using addTerm_hit [of e idf ?z] assms(2) tf by auto
  have "0 < addTerm idf ?z e ! p" using p by simp
  also have "\<dots> \<le> foldl (addTerm idf) (addTerm idf ?z e) rest ! p"
    using assms(2) p(1) by (intro foldl_addTerm_mono) (simp_all add: tf addTerm_length)
  finally show ?thesis using p(1) by (auto simp: tf)
qed

lemma l2norm_pos_entry:
  assumes "p < length v" "0 < v ! p"
  shows "l2norm v \<noteq> 0"
proof
  assume "l2norm v = 0"
  then have "v = replicate (length v) 0" by (simp add: l2norm_zero_iff)
  then have "v ! p = 0" using assms(1) by (metis nth_replicate)
  then show False using assms(2) by simp
qed

lemma l2norm_replicate_0: "l2norm (replicate n 0) = 0"
  by (simp add: l2norm_zero_iff)

lemma generateTFIDFVector_no_tokens:
  "tokenize text = [] \<Longrightarrow> generateTFIDFVector g text = replicate vectorSize 0"
  by (simp add: generateTFIDFVector_def calculateTermFrequency_empty normalizeVector_zero l2norm_replicate_0)

lemma generateTFIDFVector_unit:
  assumes "tokenize text \<noteq> []"
      and "\<forall>w \<in> set (tokenize text). 0 < getOr (idfScores g) w 1"
  shows "l2norm (generateTFIDFVector g text) = 1"
proof -
  let ?tf = "calculateTermFrequency (tokenize text)"
  let ?v = "foldl (addTerm (idfScores g)) (replicate vectorSize 0) ?tf"
  have "\<forall>e \<in> set ?tf. 0 < snd e * getOr (idfScores g) (fst e) 1"
    using calculateTermFrequency_pos(2) [OF assms(1)] assms(2) by auto
  then obtain p where "p < vectorSize" "0 < ?v ! p"
    using foldl_addTerm_pos [OF calculateTermFrequency_pos(1) [OF assms(1)]] by blast
  then have "l2norm ?v \<noteq> 0"
    by (intro l2norm_pos_entry [of p]) (simp_all add: foldl_addTerm_length)
  then show ?thesis
    by (simp add: generateTFIDFVector_def Let_def normalizeVector_unit)
qed

lemma generateTFIDFVector_cases:
  "generateTFIDFVector g text = replicate vectorSize 0 \<or> l2norm (generateTFIDFVector g text) = 1"
  using normalizeVector_cases
    [of "foldl (addTerm (idfScores g)) (replicate vectorSize 0) (calculateTermFrequency (tokenize text))"]
  by (simp add: generateTFIDFVector_def Let_def foldl_addTerm_length)

lemma tokenize_cat: "tokenize ''cat'' = [''cat'']"
  by (simp add: tokenize_def toLowerCase_def toLowerChar_def isWordChar_def isSpace_def splitWs_def)

lemma tokenize_empty: "tokenize '''' = []"
  by (simp add: tokenize_def toLowerCase_def splitWs_def)

lemma tf_cat: "calculateTermFrequency [''cat''] = [(''cat'', 1)]"
  by (simp add: calculateTermFrequency_def countWord_def getOr_def)

lemma positions_cat: "getWordPositions ''cat'' 3 = [342, 363, 0]"
  unfolding getWordPositions_def hashCodes_cat Let_def upt_3
  by (simp add: wordPosition_def vectorSize_def)

lemma vector_cat:
  "foldl (addTerm []) (replicate vectorSize 0) [(''cat'', 1)]
   = (replicate vectorSize 0)[342 := 1, 363 := 1, 0 := 1]"
  by (simp add: addTerm_def positions_cat getOr_def vectorSize_def)

lemma sumsq_update:
  "i < length v \<Longrightarrow> (\<Sum>x\<leftarrow>v[i := y]. x * x :: real) = (\<Sum>x\<leftarrow>v. x * x) - v ! i * v ! i + y * y"
proof (induction v arbitrary: i)
  case Nil
  then show ?case by simp
next
  case (Cons a v)
  then show ?case by (cases i) simp_all
qed

lemma sumsq_replicate_0: "(\<Sum>x\<leftarrow>replicate n (0::real). x * x) = 0"
  by (induction n) simp_all

lemma sumsq_cat: "(\<Sum>x\<leftarrow>(replicate vectorSize 0)[342 := 1, 363 := 1, 0 := 1]. x * x :: real) = 3"
  by (simp add: sumsq_update sum_list_replicate vectorSize_def)

lemma embedding_cat:
  "generateTFIDFVector newEmbeddingGenerator ''cat''
   = map (\<lambda>x. x / sqrt 3) ((replicate vectorSize 0)[342 := 1, 363 := 1, 0 := 1])"
proof -
  have "generateTFIDFVector newEmbeddingGenerator ''cat''
        = normalizeVector (foldl (addTerm []) (replicate vectorSize 0) [(''cat'', 1)])"
    by (simp add: generateTFIDFVector_def tokenize_cat tf_cat newEmbeddingGenerator_def)
  also have "\<dots> = normalizeVector ((replicate vectorSize 0)[342 := 1, 363 := 1, 0 := 1])"
    by (simp only: vector_cat)
  also have "\<dots> = map (\<lambda>x. x / sqrt 3) ((replicate vectorSize 0)[342 := 1, 363 := 1, 0 := 1])"
    by (simp add: normalizeVector_def sumsq_foldl sumsq_cat)
  finally show ?thesis .
qed

lemma embedding_cat_0: "generateTFIDFVector newEmbeddingGenerator ''cat'' ! 0 = 1 / sqrt 3"
  by (simp add: embedding_cat vectorSize_def)

text \<open>
  C1 (as amended). For every text and every generator state the encoder returns a vector
  of 384 components that is the zero vector or has L2 norm 1 (over the reals, where the
  tolerance is zero). It returns the zero vector when the text has no token. A term that
  the vocabulary does not hold gets the IDF weight 1, so for a text that has a token and
  whose tokens are all absent from the vocabulary the result has norm 1 and is not the
  zero vector.
\<close>

theorem generateTFIDFVector_norm:
  "length (generateTFIDFVector g text) = vectorSize
   \<and> (generateTFIDFVector g text = replicate vectorSize 0 \<or> l2norm (generateTFIDFVector g text) = 1)
   \<and> (tokenize text = [] \<longrightarrow> generateTFIDFVector g text = replicate vectorSize 0)
   \<and> (tokenize text \<noteq> [] \<and> (\<forall>w \<in> set (tokenize text). map_of (idfScores g) w = None) \<longrightarrow>
        l2norm (generateTFIDFVector g text) = 1 \<and> generateTFIDFVector g text \<noteq> replicate vectorSize 0)"
proof (intro conjI impI)
  show "length (generateTFIDFVector g text) = vectorSize"
    by (rule generateTFIDFVector_length)
  show "generateTFIDFVector g text = replicate vectorSize 0 \<or> l2norm (generateTFIDFVector g text) = 1"
    by (rule generateTFIDFVector_cases)
  show "generateTFIDFVector g text = replicate vectorSize 0" if "tokenize text = []"
    using that by (rule generateTFIDFVector_no_tokens)
next
  assume a: "tokenize text \<noteq> [] \<and> (\<forall>w \<in> set (tokenize text). map_of (idfScores g) w = None)"
  then have "\<forall>w \<in> set (tokenize text). 0 < getOr (idfScores g) w 1"
    by (simp add: getOr_def)
  with a show unit: "l2norm (generateTFIDFVector g text) = 1"
    by (intro generateTFIDFVector_unit) simp_all
  show "generateTFIDFVector g text \<noteq> replicate vectorSize 0"
  proof
    assume "generateTFIDFVector g text = replicate vectorSize 0"
    then have "l2norm (generateTFIDFVector g text) = 0"
      by (simp add: l2norm_replicate_0)
    with unit show False by simp
  qed
qed

theorem generateTFIDFVector_norm_witness:
  "tokenize '''' = [] \<and> generateTFIDFVector newEmbeddingGenerator '''' = replicate vectorSize 0
   \<and> tokenize ''cat'' = [''cat'']
   \<and> map_of (idfScores newEmbeddingGenerator) ''cat'' = None
   \<and> l2norm (generateTFIDFVector newEmbeddingGenerator ''cat'') = 1"
proof -
  have h1: "tokenize '''' = []" by (rule tokenize_empty)
  have absent: "map_of (idfScores newEmbeddingGenerator) ''cat'' = None"
    by (simp add: newEmbeddingGenerator_def)
  then have h2: "tokenize ''cat'' \<noteq> [] \<and> (\<forall>w \<in> set (tokenize ''cat''). map_of (idfScores newEmbeddingGenerator) w = None)"
    by (simp add: tokenize_cat)
  from generateTFIDFVector_norm [of newEmbeddingGenerator "''''"] h1
  have r1: "generateTFIDFVector newEmbeddingGenerator '''' = replicate vectorSize 0" by blast
  from generateTFIDFVector_norm [of newEmbeddingGenerator "''cat''"] h2
  have r2: "l2norm (generateTFIDFVector newEmbeddingGenerator ''cat'') = 1" by blast
  from h1 r1 tokenize_cat absent r2 show ?thesis by (intro conjI)
qed

text \<open>
  The text \<open>cat\<close> against the empty vocabulary: its only token is absent from the
  vocabulary, and the encoder returns a vector whose component 0 is \<open>1 / sqrt 3\<close>, not
  the zero vector.
\<close>

theorem generateTFIDFVector_unrecognized_counterexample:
  "tokenize ''cat'' = [''cat'']
   \<and> map_of (idfScores newEmbeddingGenerator) ''cat'' = None
   \<and> generateTFIDFVector newEmbeddingGenerator ''cat'' ! 0 = 1 / sqrt 3
   \<and> replicate vectorSize (0::real) ! 0 = 0
   \<and> generateTFIDFVector newEmbeddingGenerator ''cat'' \<noteq> replicate vectorSize 0"
proof -
  have z: "replicate vectorSize (0::real) ! 0 = 0" by (simp add: vectorSize_def)
  have nz: "generateTFIDFVector newEmbeddingGenerator ''cat'' ! 0 \<noteq> 0"
    by (simp add: embedding_cat_0)
  have ne: "generateTFIDFVector newEmbeddingGenerator ''cat'' \<noteq> replicate vectorSize 0"
    using z nz by metis
  have absent: "map_of (idfScores newEmbeddingGenerator) ''cat'' = None"
    by (simp add: newEmbeddingGenerator_def)
  from tokenize_cat absent embedding_cat_0 z ne show ?thesis
    by (intro conjI)
qed

section \<open>Properties of batch encoding\<close>

lemma buildVocabulary_isInitialized: "isInitialized (buildVocabulary g cs) = isInitialized g"
  by (simp add: buildVocabulary_def Let_def)

lemma chunksWithText_map: "chunksWithText (map WithText cs) = Inr cs"
  by (induction cs) simp_all

lemma embedLoop_quiet:
  "(\<forall>percent message. callProgress cb percent message = None) \<Longrightarrow>
   embedLoop g cb totalChunks i cs =
     map (\<lambda>c. case generateEmbedding g (chunk_text c) of
                 Inr e \<Rightarrow> e | Inl err \<Rightarrow> replicate vectorSize 0) cs"
  by (induction cs arbitrary: i) (simp_all split: sum.splits)


text \<open>
  Where every element is a chunk with a text and no report throws, the batch encoder
  returns one vector per chunk, in the order of the chunks: the embedding of the chunk
  under the vocabulary built from the batch, or the zero vector where the embedding fails.
\<close>

lemma generateEmbeddingsBatch_quiet:
  assumes "\<forall>percent message. callProgress cb percent message = None"
  shows "generateEmbeddingsBatch g (map WithText cs) cb =
     (buildVocabulary g cs,
      Inr (map (\<lambda>c. case generateEmbedding (buildVocabulary g cs) (chunk_text c) of
                       Inr e \<Rightarrow> e | Inl err \<Rightarrow> replicate vectorSize 0) cs))"
  using assms
  by (simp add: generateEmbeddingsBatch_def chunksWithText_map Let_def embedLoop_quiet)

lemma readyGenerator_initialized: "isInitialized (buildVocabulary readyGenerator cs)"
  by (simp add: buildVocabulary_isInitialized readyGenerator_def initialize_def
      newEmbeddingGenerator_def)

text \<open>
  C5, the code at three calls on an initialized generator. With the two chunks
  \<open>cat dog\<close> and \<open>dog bird\<close> and a progress callback that throws on the report after the
  first chunk (82.5 percent), the \<open>try\<close> block has already pushed the embedding of the
  chunk when the report throws, and the \<open>catch\<close> block pushes a zero vector as well: the
  call returns three vectors for two chunks. With an element whose text is not a string
  the call throws the \<open>TypeError\<close> of \<open>buildVocabulary\<close>, and with a callback that always
  throws it throws at the first report: both are outside the \<open>try\<close> block.
\<close>

theorem generateEmbeddingsBatch_failures:
  "snd (generateEmbeddingsBatch readyGenerator (map WithText demoChunks) failingCallback)
     = Inr [generateTFIDFVector (buildVocabulary readyGenerator demoChunks) ''cat dog'',
            replicate 384 0,
            generateTFIDFVector (buildVocabulary readyGenerator demoChunks) ''dog bird'']
   \<and> length demoChunks = 2
   \<and> snd (generateEmbeddingsBatch readyGenerator [WithText (demoChunks ! 0), WithoutText] None)
     = Inl TypeError
   \<and> snd (generateEmbeddingsBatch readyGenerator (map WithText demoChunks)
            (Some (\<lambda>percent message. Some (Error ''progress''))))
     = Inl (Error ''progress'')"
proof -
  define G where "G = buildVocabulary readyGenerator demoChunks"
  have init: "isInitialized G"
    unfolding G_def by (rule readyGenerator_initialized)
  have len: "length demoChunks = 2" by (simp add: demoChunks_def)
  have cw: "chunksWithText (map WithText demoChunks) = Inr demoChunks"
    by (rule chunksWithText_map)
  have p65: "callProgress failingCallback 65 ''Analyzing document vocabulary...'' = None"
    and p95: "callProgress failingCallback 95 ''Finalizing embeddings...'' = None"
    by (simp_all add: callProgress_def failingCallback_def)
  have loop: "embedLoop G failingCallback (length demoChunks) 0 demoChunks
        = [generateTFIDFVector G ''cat dog'', replicate 384 0, generateTFIDFVector G ''dog bird'']"
    by (simp add: demoChunks_def generateEmbedding_def init callProgress_def
        failingCallback_def vectorSize_def)
  have "snd (generateEmbeddingsBatch readyGenerator (map WithText demoChunks) failingCallback)
     = Inr (embedLoop G failingCallback (length demoChunks) 0 demoChunks)"
    by (simp add: generateEmbeddingsBatch_def p65 p95 cw Let_def G_def)
  then have a: "snd (generateEmbeddingsBatch readyGenerator (map WithText demoChunks) failingCallback)
     = Inr [generateTFIDFVector (buildVocabulary readyGenerator demoChunks) ''cat dog'',
            replicate 384 0,
            generateTFIDFVector (buildVocabulary readyGenerator demoChunks) ''dog bird'']"
    by (simp only: loop) (simp only: G_def)
  have b: "snd (generateEmbeddingsBatch readyGenerator [WithText (demoChunks ! 0), WithoutText] None)
     = Inl TypeError"
    by (simp add: generateEmbeddingsBatch_def callProgress_def)
  have c: "snd (generateEmbeddingsBatch readyGenerator (map WithText demoChunks)
            (Some (\<lambda>percent message. Some (Error ''progress''))))
     = Inl (Error ''progress'')"
    by (simp add: generateEmbeddingsBatch_def callProgress_def)
  from a len b c show ?thesis by (intro conjI)
qed



section \<open>Properties of the vocabulary builder\<close>

lemma exp_double_lower:
  fixes y :: real
  assumes "b \<le> exp y" "0 \<le> b" "c \<le> b * b"
  shows "c \<le> exp (2 * y)"
proof -
  have "b * b \<le> exp y * exp y"
    using assms(1,2) by (intro mult_mono) simp_all
  also have "\<dots> = exp (2 * y)"
    by (simp add: exp_add [symmetric])
  finally show ?thesis using assms(3) by simp
qed

lemma ln_two_thirds_upper: "ln (2 / 3 :: real) < - (404 / 1000)"
proof -
  have s0: "(15899 / 16000 :: real) \<le> exp (- (404 / 64000))"
    using exp_ge_add_one_self [of "- (404 / 64000) :: real"] by simp
  have s1: "(987414 / 1000000 :: real) \<le> exp (- (404 / 32000))"
    using exp_double_lower [OF s0, of "987414 / 1000000"] by simp
  have s2: "(974986 / 1000000 :: real) \<le> exp (- (404 / 16000))"
    using exp_double_lower [OF s1, of "974986 / 1000000"] by simp
  have s3: "(950597 / 1000000 :: real) \<le> exp (- (404 / 8000))"
    using exp_double_lower [OF s2, of "950597 / 1000000"] by simp
  have s4: "(903634 / 1000000 :: real) \<le> exp (- (404 / 4000))"
    using exp_double_lower [OF s3, of "903634 / 1000000"] by simp
  have s5: "(816554 / 1000000 :: real) \<le> exp (- (404 / 2000))"
    using exp_double_lower [OF s4, of "816554 / 1000000"] by simp
  have s6: "(666760 / 1000000 :: real) \<le> exp (- (404 / 1000))"
    using exp_double_lower [OF s5, of "666760 / 1000000"] by simp
  have "exp (ln (2 / 3 :: real)) < 666760 / 1000000"
    by simp
  also note s6
  finally show ?thesis by (simp only: exp_less_cancel_iff)
qed

lemma ln_two_thirds_lower: "- (406 / 1000) < ln (2 / 3 :: real)"
proof -
  have s0: "(1052037 / 1000000 :: real) \<le> exp (406 / 8000)"
    using exp_lower_Taylor_quadratic [of "406 / 8000 :: real"] by (simp add: power2_eq_square)
  have s1: "(1106781 / 1000000 :: real) \<le> exp (406 / 4000)"
    using exp_double_lower [OF s0, of "1106781 / 1000000"] by simp
  have s2: "(1224964 / 1000000 :: real) \<le> exp (406 / 2000)"
    using exp_double_lower [OF s1, of "1224964 / 1000000"] by simp
  have s3: "(1500536 / 1000000 :: real) \<le> exp (406 / 1000)"
    using exp_double_lower [OF s2, of "1500536 / 1000000"] by simp
  have "exp (ln (3 / 2 :: real)) < 1500536 / 1000000"
    by simp
  also note s3
  finally have "ln (3 / 2 :: real) < 406 / 1000" by (simp only: exp_less_cancel_iff)
  moreover have "ln (2 / 3 :: real) = - ln (3 / 2)"
    using ln_div [of 2 3] ln_div [of 3 2] by simp
  ultimately show ?thesis by simp
qed

lemma ln_half_gt: "- 1 < ln (1 / 2 :: real)"
proof -
  have "ln (1 / 2 :: real) = - ln 2" by (simp add: ln_div)
  moreover have "ln (2::real) < 1" by (rule ln_2_less_1)
  ultimately show ?thesis by simp
qed

lemma idfOf_pos:
  assumes "freq \<le> totalDocs" "0 < totalDocs"
  shows "0 < idfOf totalDocs freq"
proof -
  have "real freq + 1 \<le> 2 * real totalDocs" using assms by simp
  then have "1 / 2 \<le> real totalDocs / (real freq + 1)"
    by (simp add: pos_le_divide_eq)
  then have "ln (1 / 2) \<le> ln (real totalDocs / (real freq + 1))"
    by (intro ln_mono) simp_all
  with ln_half_gt show ?thesis by (simp add: idfOf_def)
qed

lemma newSet_fold_set:
  "set (foldl (\<lambda>acc x. if x \<in> set acc then acc else acc @ [x]) acc xs) = set acc \<union> set xs"
  by (induction xs arbitrary: acc) auto

lemma newSet_fold_distinct:
  "distinct acc \<Longrightarrow> distinct (foldl (\<lambda>acc x. if x \<in> set acc then acc else acc @ [x]) acc xs)"
  by (induction xs arbitrary: acc) auto

lemma set_newSet: "set (newSet xs) = set xs"
  by (simp add: newSet_def newSet_fold_set)

lemma distinct_newSet: "distinct (newSet xs)"
  by (simp add: newSet_def newSet_fold_distinct)

lemma getOr_countWord:
  "getOr (countWord df x) w 0 = (if w = x then getOr df x 0 + 1 else getOr df w 0)"
  by (simp add: getOr_def countWord_def update_conv')

lemma countWord_distinct: "distinct (map fst df) \<Longrightarrow> distinct (map fst (countWord df x))"
  by (simp add: countWord_def distinct_update)

lemma df_inner:
  "distinct ws \<Longrightarrow>
   getOr (foldl countWord df ws) w 0 = getOr df w 0 + (if w \<in> set ws then 1 else 0)"
proof (induction ws arbitrary: df)
  case Nil
  show ?case by simp
next
  case (Cons x ws)
  have "getOr (foldl countWord (countWord df x) ws) w 0
        = getOr (countWord df x) w 0 + (if w \<in> set ws then 1 else 0)"
    using Cons.prems by (intro Cons.IH) simp
  then show ?case using Cons.prems by (auto simp: getOr_countWord)
qed

lemma df_inner_distinct:
  "distinct (map fst df) \<Longrightarrow> distinct (map fst (foldl countWord df ws))"
  by (induction ws arbitrary: df) (simp_all add: countWord_distinct)

lemma getOr_countChunk:
  "getOr (countChunk df c) w 0 = getOr df w 0 + (if w \<in> set (tokenize (chunk_text c)) then 1 else 0)"
  by (simp add: countChunk_def df_inner distinct_newSet set_newSet)

lemma countChunk_keys:
  "fst ` set (countChunk df c) = fst ` set df \<union> set (tokenize (chunk_text c))"
  by (simp add: countChunk_def count_fold_keys set_newSet)

lemma countChunk_distinct: "distinct (map fst df) \<Longrightarrow> distinct (map fst (countChunk df c))"
  by (simp add: countChunk_def df_inner_distinct)

lemma df_outer: "getOr (foldl countChunk acc cs) w 0 = getOr acc w 0 + dfSpec w cs"
proof (induction cs arbitrary: acc)
  case Nil
  show ?case by (simp add: dfSpec_def)
next
  case (Cons c cs)
  have "dfSpec w (c # cs) = (if w \<in> set (tokenize (chunk_text c)) then 1 else 0) + dfSpec w cs"
    by (simp add: dfSpec_def)
  then show ?case
    by (simp add: Cons.IH getOr_countChunk)
qed

lemma df_outer_keys:
  "fst ` set (foldl countChunk acc cs)
   = fst ` set acc \<union> (\<Union>c \<in> set cs. set (tokenize (chunk_text c)))"
proof (induction cs arbitrary: acc)
  case Nil
  show ?case by simp
next
  case (Cons c cs)
  show ?case
    by (simp add: Cons.IH countChunk_keys Un_assoc)
qed

lemma df_outer_distinct:
  "distinct (map fst acc) \<Longrightarrow> distinct (map fst (foldl countChunk acc cs))"
  by (induction cs arbitrary: acc) (simp_all add: countChunk_distinct)

lemma documentFrequency_distinct: "distinct (map fst (documentFrequency cs))"
  by (simp add: documentFrequency_def df_outer_distinct)

lemma dfSpec_pos_iff: "0 < dfSpec w cs \<longleftrightarrow> w \<in> (\<Union>c \<in> set cs. set (tokenize (chunk_text c)))"
  by (auto simp: dfSpec_def filter_empty_conv)

lemma dfSpec_le: "dfSpec w cs \<le> length cs"
  by (simp add: dfSpec_def)

lemma documentFrequency_lookup:
  "map_of (documentFrequency cs) w = (if dfSpec w cs = 0 then None else Some (dfSpec w cs))"
proof (cases "dfSpec w cs = 0")
  case True
  then have "w \<notin> fst ` set (documentFrequency cs)"
    using dfSpec_pos_iff [of w cs] df_outer_keys [of "[]" cs]
    by (simp add: documentFrequency_def)
  then have "map_of (documentFrequency cs) w = None"
    by (simp add: map_of_eq_None_iff)
  with True show ?thesis by simp
next
  case False
  then have "w \<in> fst ` set (documentFrequency cs)"
    using dfSpec_pos_iff [of w cs] df_outer_keys [of "[]" cs]
    by (simp add: documentFrequency_def)
  then have "map_of (documentFrequency cs) w \<noteq> None"
    by (simp add: map_of_eq_None_iff)
  then obtain v where v: "map_of (documentFrequency cs) w = Some v"
    by blast
  have "getOr (documentFrequency cs) w 0 = dfSpec w cs"
    using df_outer [of "[]" cs w] by (simp add: documentFrequency_def getOr_def)
  with v have "v = dfSpec w cs"
    by (simp add: getOr_def split: if_splits)
  with v False show ?thesis by simp
qed

lemma idf_fold_lookup:
  "distinct (map fst dfl) \<Longrightarrow>
   map_of (foldl (storeIdf n) idf0 dfl) w
   = (case map_of dfl w of Some f \<Rightarrow> Some (idfOf n f) | None \<Rightarrow> map_of idf0 w)"
proof (induction dfl arbitrary: idf0)
  case Nil
  show ?case by simp
next
  case (Cons e dfl)
  have d: "distinct (map fst dfl)" and k: "fst e \<notin> fst ` set dfl"
    using Cons.prems by simp_all
  have "map_of dfl (fst e) = None" using k by (simp add: map_of_eq_None_iff)
  then show ?case
    using Cons.IH [OF d, of "storeIdf n idf0 e"]
    by (cases e) (simp add: storeIdf_def update_conv' split: option.splits)
qed

lemma buildVocabulary_lookup:
  "map_of (idfScores (buildVocabulary g cs)) w
   = (if dfSpec w cs = 0 then map_of (idfScores g) w
      else Some (idfOf (length cs) (dfSpec w cs)))"
  by (simp add: buildVocabulary_def Let_def idf_fold_lookup documentFrequency_distinct
      documentFrequency_lookup)

lemma tokenize_cat_dog: "tokenize ''cat dog'' = [''cat'', ''dog'']"
  by (simp add: tokenize_def toLowerCase_def toLowerChar_def isWordChar_def isSpace_def splitWs_def)

lemma tokenize_dog_bird: "tokenize ''dog bird'' = [''dog'', ''bird'']"
  by (simp add: tokenize_def toLowerCase_def toLowerChar_def isWordChar_def isSpace_def splitWs_def)

lemma dfSpec_demo:
  "dfSpec ''cat'' demoChunks = 1" "dfSpec ''dog'' demoChunks = 2" "dfSpec ''bird'' demoChunks = 1"
  by (simp_all add: dfSpec_def demoChunks_def tokenize_cat_dog tokenize_dog_bird)

text \<open>
  C6. For every batch of \<open>N\<close> chunks the vocabulary builder counts, for each term, the
  chunks whose tokenization contains it, and stores for each counted term the weight
  \<open>ln (N / (df + 1)) + 1\<close>; a weight of this form is positive whenever \<open>df \<le> N\<close> and the
  batch is not empty. On the corpus \<open>cat dog\<close>, \<open>dog bird\<close> the weights are 1 for
  \<open>cat\<close> and \<open>bird\<close> and \<open>ln (2 / 3) + 1\<close>, between 0.594 and 0.596, for \<open>dog\<close>.
\<close>

theorem buildVocabulary_idf:
  "map_of (documentFrequency cs) w = (if dfSpec w cs = 0 then None else Some (dfSpec w cs))
   \<and> dfSpec w cs \<le> length cs
   \<and> (0 < dfSpec w cs \<longrightarrow>
        map_of (idfScores (buildVocabulary g cs)) w
          = Some (ln (real (length cs) / (real (dfSpec w cs) + 1)) + 1)
        \<and> 0 < ln (real (length cs) / (real (dfSpec w cs) + 1)) + 1)
   \<and> (freq \<le> n \<and> 0 < n \<longrightarrow> 0 < idfOf n freq)"
proof (intro conjI impI)
  show "map_of (documentFrequency cs) w = (if dfSpec w cs = 0 then None else Some (dfSpec w cs))"
    by (rule documentFrequency_lookup)
  show "dfSpec w cs \<le> length cs"
    by (rule dfSpec_le)
  show "0 < idfOf n freq" if "freq \<le> n \<and> 0 < n"
    using that by (intro idfOf_pos) simp_all
next
  assume pos: "0 < dfSpec w cs"
  then show "map_of (idfScores (buildVocabulary g cs)) w
             = Some (ln (real (length cs) / (real (dfSpec w cs) + 1)) + 1)"
    by (simp add: buildVocabulary_lookup idfOf_def)
  have "0 < length cs" using pos dfSpec_le [of w cs] by linarith
  then have "0 < idfOf (length cs) (dfSpec w cs)"
    by (intro idfOf_pos dfSpec_le)
  then show "0 < ln (real (length cs) / (real (dfSpec w cs) + 1)) + 1"
    by (simp add: idfOf_def)
qed

theorem buildVocabulary_idf_witness:
  "dfSpec ''cat'' demoChunks = 1 \<and> dfSpec ''dog'' demoChunks = 2 \<and> dfSpec ''bird'' demoChunks = 1
   \<and> map_of (idfScores (buildVocabulary newEmbeddingGenerator demoChunks)) ''cat'' = Some 1
   \<and> map_of (idfScores (buildVocabulary newEmbeddingGenerator demoChunks)) ''dog'' = Some (ln (2 / 3) + 1)
   \<and> map_of (idfScores (buildVocabulary newEmbeddingGenerator demoChunks)) ''bird'' = Some 1
   \<and> 594 / 1000 < ln (2 / 3 :: real) + 1 \<and> ln (2 / 3 :: real) + 1 < 596 / 1000
   \<and> 0 < idfOf 2 2"
proof -
  have len: "length demoChunks = 2" by (simp add: demoChunks_def)
  have cat: "map_of (idfScores (buildVocabulary newEmbeddingGenerator demoChunks)) ''cat'' = Some 1"
    using buildVocabulary_idf [of demoChunks "''cat''" newEmbeddingGenerator 2 2]
    by (simp add: dfSpec_demo len)
  have dog: "map_of (idfScores (buildVocabulary newEmbeddingGenerator demoChunks)) ''dog'' = Some (ln (2 / 3) + 1)"
    using buildVocabulary_idf [of demoChunks "''dog''" newEmbeddingGenerator 2 2]
    by (simp add: dfSpec_demo len)
  have bird: "map_of (idfScores (buildVocabulary newEmbeddingGenerator demoChunks)) ''bird'' = Some 1"
    using buildVocabulary_idf [of demoChunks "''bird''" newEmbeddingGenerator 2 2]
    by (simp add: dfSpec_demo len)
  have pos: "0 < idfOf 2 2"
    using buildVocabulary_idf [of demoChunks "''dog''" newEmbeddingGenerator 2 2] by simp
  have b1: "594 / 1000 < ln (2 / 3 :: real) + 1" using ln_two_thirds_lower by simp
  have b2: "ln (2 / 3 :: real) + 1 < 596 / 1000" using ln_two_thirds_upper by simp
  from dfSpec_demo cat dog bird b1 b2 pos show ?thesis by (intro conjI)
qed

section \<open>Properties of the vector search\<close>

lemma enhanceResult_fields:
  "chunk (enhanceResult db r) = fst r" "similarity (enhanceResult db r) = snd r"
  by (simp_all add: enhanceResult_def)

lemma rankChunks_length: "length (rankChunks vs db qe cs topK) \<le> topK"
  by (simp add: rankChunks_def Let_def)

lemma rankChunks_member:
  assumes "r \<in> set (rankChunks vs db qe cs topK)"
  shows "similarityThreshold vs \<le> similarity r \<and> chunk r \<in> set cs
         \<and> similarity r = chunkSimilarity qe (chunk r)"
proof -
  from assms obtain p
    where p: "p \<in> set (take topK (sort_key (\<lambda>r. - snd r)
                 (filter (\<lambda>r. snd r \<ge> similarityThreshold vs)
                    (map (\<lambda>c. (c, chunkSimilarity qe c)) cs))))"
      and r: "r = enhanceResult db p"
    by (auto simp: rankChunks_def Let_def)
  from p have "p \<in> set (filter (\<lambda>r. snd r \<ge> similarityThreshold vs)
                    (map (\<lambda>c. (c, chunkSimilarity qe c)) cs))"
    by (metis in_set_takeD set_sort)
  then have "similarityThreshold vs \<le> snd p" "fst p \<in> set cs" "snd p = chunkSimilarity qe (fst p)"
    by auto
  then show ?thesis by (simp add: r enhanceResult_fields)
qed

lemma rankChunks_sorted:
  "sorted_wrt (\<lambda>a b. similarity b \<le> similarity a) (rankChunks vs db qe cs topK)"
proof -
  let ?xs = "sort_key (\<lambda>r. - snd r)
               (filter (\<lambda>r. snd r \<ge> similarityThreshold vs) (map (\<lambda>c. (c, chunkSimilarity qe c)) cs))"
  have "sorted (map (\<lambda>r. - snd r) ?xs)" by (rule sorted_sort_key)
  then have "sorted_wrt (\<lambda>a b. snd b \<le> snd a) ?xs"
    by (simp add: sorted_wrt_map)
  then have "sorted_wrt (\<lambda>a b. snd b \<le> snd a) (take topK ?xs)"
    by (rule sorted_wrt_take)
  then show ?thesis
    by (simp add: rankChunks_def Let_def sorted_wrt_map enhanceResult_fields)
qed

lemma rankChunks_complete:
  assumes "length (filter (\<lambda>c. similarityThreshold vs \<le> chunkSimilarity qe c) cs) \<le> topK"
      and "c \<in> set cs" "similarityThreshold vs \<le> chunkSimilarity qe c"
  shows "c \<in> chunk ` set (rankChunks vs db qe cs topK)"
proof -
  let ?f = "filter (\<lambda>r. snd r \<ge> similarityThreshold vs) (map (\<lambda>c. (c, chunkSimilarity qe c)) cs)"
  have "?f = map (\<lambda>c. (c, chunkSimilarity qe c)) (filter (\<lambda>c. similarityThreshold vs \<le> chunkSimilarity qe c) cs)"
    by (simp add: filter_map comp_def)
  then have "length ?f \<le> topK" using assms(1) by simp
  then have "take topK (sort_key (\<lambda>r. - snd r) ?f) = sort_key (\<lambda>r. - snd r) ?f"
    by simp
  then have "set (rankChunks vs db qe cs topK) = enhanceResult db ` set ?f"
    by (simp add: rankChunks_def Let_def)
  moreover have "(c, chunkSimilarity qe c) \<in> set ?f" using assms(2,3) by simp
  ultimately have "enhanceResult db (c, chunkSimilarity qe c) \<in> set (rankChunks vs db qe cs topK)"
    by blast
  then have "chunk (enhanceResult db (c, chunkSimilarity qe c)) \<in> chunk ` set (rankChunks vs db qe cs topK)"
    by (rule imageI)
  then show ?thesis by (simp add: enhanceResult_fields)
qed

lemma searchSimilarChunks_results:
  assumes "searchSimilarChunks vs g db queryText docId topK = Inr resp"
  shows "results resp = rankChunks vs db (generateTFIDFVector g queryText) (chunksToSearch db docId) topK"
    and "isInitialized g"
proof -
  show init: "isInitialized g"
    using assms by (auto simp: searchSimilarChunks_def split: if_splits)
  show "results resp = rankChunks vs db (generateTFIDFVector g queryText) (chunksToSearch db docId) topK"
  proof (cases "chunksToSearch db docId = []")
    case True
    then show ?thesis
      using assms init
      by (auto simp: searchSimilarChunks_def generateEmbedding_def rankChunks_def)
  next
    case False
    then show ?thesis
      using assms init
      by (auto simp: searchSimilarChunks_def generateEmbedding_def Let_def)
  qed
qed

lemma readyGenerator_fields: "isInitialized readyGenerator" "idfScores readyGenerator = []"
  by (simp_all add: readyGenerator_def initialize_def newEmbeddingGenerator_def)

lemma embedding_of_cat:
  assumes "tokenize text = [''cat'']" "idfScores g = []"
  shows "generateTFIDFVector g text
         = map (\<lambda>x. x / sqrt 3) ((replicate vectorSize 0)[342 := 1, 363 := 1, 0 := 1])"
proof -
  have "generateTFIDFVector g text
        = normalizeVector (foldl (addTerm []) (replicate vectorSize 0) [(''cat'', 1)])"
    by (simp add: generateTFIDFVector_def assms tf_cat)
  also have "\<dots> = normalizeVector ((replicate vectorSize 0)[342 := 1, 363 := 1, 0 := 1])"
    by (simp only: vector_cat)
  also have "\<dots> = map (\<lambda>x. x / sqrt 3) ((replicate vectorSize 0)[342 := 1, 363 := 1, 0 := 1])"
    by (simp add: normalizeVector_def sumsq_foldl sumsq_cat)
  finally show ?thesis .
qed

lemma embedding_of_cat_head:
  assumes "tokenize text = [''cat'']" "idfScores g = []"
  shows "length (generateTFIDFVector g text) = 384"
    and "generateTFIDFVector g text ! 0 = 1 / sqrt 3"
    and "generateTFIDFVector g text ! Suc 0 = 0"
  by (simp_all add: embedding_of_cat [OF assms] vectorSize_def)

lemma dotUpto_1: "dotUpto (Suc 0) a b = a ! 0 * b ! 0"
  by (simp add: dotUpto_def)

lemma dotUpto_2: "dotUpto 2 a b = a ! 0 * b ! 0 + a ! Suc 0 * b ! Suc 0"
  by (simp add: dotUpto_def numeral_2_eq_2)

lemma cosine_head_1:
  assumes "length q = 384" "q ! 0 = 1 / sqrt 3"
  shows "cosineSimilarity q [1] = 1"
  by (simp add: cosineSimilarity_sums assms dotUpto_1 real_sqrt_divide)

lemma cosine_head_2:
  assumes "length q = 384" "q ! 0 = 1 / sqrt 3" "q ! Suc 0 = 0" "0 < x" "0 < m" "x * x + y * y = m * m" "x \<le> m"
  shows "cosineSimilarity q [x, y] = x / m"
proof -
  have n: "min (length q) (length [x, y]) = 2" using assms(1) by simp
  have qq: "dotUpto 2 q q = 1 / 3" by (simp add: dotUpto_2 assms)
  have bb: "dotUpto 2 [x, y] [x, y] = m * m" by (simp add: dotUpto_2 assms)
  have qb: "dotUpto 2 q [x, y] = x / sqrt 3" by (simp add: dotUpto_2 assms)
  have sm: "sqrt (m * m) = m" using assms(5) by simp
  have "cosineSimilarity q [x, y] = max 0 (min 1 ((x / sqrt 3) / (sqrt (1 / 3) * m)))"
    using assms(5) by (simp only: cosineSimilarity_sums n Let_def qq bb qb sm) simp
  also have "(x / sqrt 3) / (sqrt (1 / 3) * m) = x / m"
    by (simp add: real_sqrt_divide)
  also have "max 0 (min 1 (x / m)) = x / m"
    using assms(4,5,7) by (simp add: max_def min_def)
  finally show ?thesis .
qed

lemma tokenize_cat_q: "tokenize ''cat?'' = [''cat'']"
  by (simp add: tokenize_def toLowerCase_def toLowerChar_def isWordChar_def isSpace_def splitWs_def)

lemma demo_similarities:
  assumes "tokenize text = [''cat'']"
  shows "map (chunkSimilarity (generateTFIDFVector readyGenerator text)) (chunks demoDB)
         = [29 / 100, 3 / 10, 1]"
proof -
  let ?q = "generateTFIDFVector readyGenerator text"
  note h = embedding_of_cat_head [OF assms readyGenerator_fields(2)]
  have a: "cosineSimilarity ?q [29, sqrt 9159] = 29 / 100"
    using cosine_head_2 [OF h, of 29 100 "sqrt 9159"] by simp
  have b: "cosineSimilarity ?q [3, sqrt 91] = 3 / 10"
    using cosine_head_2 [OF h, of 3 10 "sqrt 91"] by simp
  have c: "cosineSimilarity ?q [1] = 1"
    by (rule cosine_head_1 [OF h(1,2)])
  show ?thesis by (simp add: demoDB_def chunkSimilarity_def a b c)
qed

lemma map_pair_zip: "map (\<lambda>c. (c, f c)) cs = zip cs (map f cs)"
  by (induction cs) simp_all

lemma demo_rank:
  assumes "tokenize text = [''cat'']"
  shows "map (\<lambda>r. (chunkIndex (chunk r), similarity r))
           (rankChunks newVectorSearch demoDB (generateTFIDFVector readyGenerator text) (chunks demoDB) 5)
         = [(2, 1), (1, 3 / 10)]"
proof -
  have "map (\<lambda>c. (c, chunkSimilarity (generateTFIDFVector readyGenerator text) c)) (chunks demoDB)
        = zip (chunks demoDB) [29 / 100, 3 / 10, 1]"
    by (simp only: map_pair_zip demo_similarities [OF assms])
  then show ?thesis
    by (simp add: rankChunks_def Let_def newVectorSearch_def enhanceResult_def o_def)
       (simp add: demoDB_def)
qed

lemma demo_search:
  assumes "tokenize text = [''cat'']"
  shows "searchSimilarChunks newVectorSearch readyGenerator demoDB text None k
         = Inr \<lparr>results = rankChunks newVectorSearch demoDB (generateTFIDFVector readyGenerator text)
                            (chunks demoDB) k,
                query = text, totalSearched = 3,
                hasResults = (0 < length (rankChunks newVectorSearch demoDB
                                (generateTFIDFVector readyGenerator text) (chunks demoDB) k))\<rparr>"
proof -
  have "chunksToSearch demoDB None = chunks demoDB"
    by (simp add: chunksToSearch_def getAllChunks_def)
  moreover have "length (chunks demoDB) = 3" by (simp add: demoDB_def)
  moreover from this have "chunks demoDB \<noteq> []" by auto
  ultimately show ?thesis
    by (simp add: searchSimilarChunks_def generateEmbedding_def readyGenerator_fields Let_def)
qed

text \<open>
  C3. Whenever the search returns a response, it holds at most \<open>topK\<close> results, every
  result is a chunk of the searched set with its similarity to the query embedding, that
  similarity is at least the threshold, and the results are in non-increasing order of
  similarity. The threshold of the search object is 0.3 and the bound is inclusive: a
  chunk with a similarity below the threshold is never returned, and when no more than
  \<open>topK\<close> chunks reach the threshold every chunk that reaches it is returned.
\<close>

theorem searchSimilarChunks_ranked:
  assumes "searchSimilarChunks vs g db queryText docId topK = Inr resp"
  shows "length (results resp) \<le> topK
    \<and> (\<forall>r \<in> set (results resp).
          similarityThreshold vs \<le> similarity r
          \<and> chunk r \<in> set (chunksToSearch db docId)
          \<and> similarity r = chunkSimilarity (generateTFIDFVector g queryText) (chunk r))
    \<and> sorted_wrt (\<lambda>a b. similarity b \<le> similarity a) (results resp)
    \<and> (\<forall>c \<in> set (chunksToSearch db docId).
          chunkSimilarity (generateTFIDFVector g queryText) c < similarityThreshold vs \<longrightarrow>
          c \<notin> chunk ` set (results resp))
    \<and> (length (filter (\<lambda>c. similarityThreshold vs \<le> chunkSimilarity (generateTFIDFVector g queryText) c)
                  (chunksToSearch db docId)) \<le> topK \<longrightarrow>
        (\<forall>c \<in> set (chunksToSearch db docId).
           similarityThreshold vs \<le> chunkSimilarity (generateTFIDFVector g queryText) c \<longrightarrow>
           c \<in> chunk ` set (results resp)))
    \<and> similarityThreshold newVectorSearch = 3 / 10"
proof -
  let ?q = "generateTFIDFVector g queryText"
  let ?cs = "chunksToSearch db docId"
  have res: "results resp = rankChunks vs db ?q ?cs topK"
    using assms by (rule searchSimilarChunks_results(1))
  have mem: "\<forall>r \<in> set (results resp).
          similarityThreshold vs \<le> similarity r \<and> chunk r \<in> set ?cs
          \<and> similarity r = chunkSimilarity ?q (chunk r)"
    unfolding res using rankChunks_member by blast
  have excl: "\<forall>c \<in> set ?cs. chunkSimilarity ?q c < similarityThreshold vs \<longrightarrow>
          c \<notin> chunk ` set (results resp)"
  proof (intro ballI impI notI)
    fix c assume "chunkSimilarity ?q c < similarityThreshold vs" "c \<in> chunk ` set (results resp)"
    then obtain r where "r \<in> set (results resp)" "c = chunk r" by blast
    with mem have "similarityThreshold vs \<le> chunkSimilarity ?q c" by auto
    with \<open>chunkSimilarity ?q c < similarityThreshold vs\<close> show False by simp
  qed
  have compl: "length (filter (\<lambda>c. similarityThreshold vs \<le> chunkSimilarity ?q c) ?cs) \<le> topK \<longrightarrow>
        (\<forall>c \<in> set ?cs. similarityThreshold vs \<le> chunkSimilarity ?q c \<longrightarrow>
           c \<in> chunk ` set (results resp))"
    unfolding res using rankChunks_complete by blast
  have "length (results resp) \<le> topK"
    unfolding res by (rule rankChunks_length)
  moreover have "sorted_wrt (\<lambda>a b. similarity b \<le> similarity a) (results resp)"
    unfolding res by (rule rankChunks_sorted)
  moreover have "similarityThreshold newVectorSearch = 3 / 10"
    by (simp add: newVectorSearch_def)
  ultimately show ?thesis using mem excl compl by blast
qed

theorem searchSimilarChunks_ranked_witness:
  "isl (searchSimilarChunks newVectorSearch readyGenerator demoDB ''cat'' None 5) = False
   \<and> map (\<lambda>r. (chunkIndex (chunk r), similarity r))
        (results (projr (searchSimilarChunks newVectorSearch readyGenerator demoDB ''cat'' None 5)))
      = [(2, 1), (1, 3 / 10)]
   \<and> length (results (projr (searchSimilarChunks newVectorSearch readyGenerator demoDB ''cat'' None 5))) \<le> 5
   \<and> map (chunkSimilarity (generateTFIDFVector readyGenerator ''cat'')) (chunks demoDB)
      = [29 / 100, 3 / 10, 1]"
proof -
  obtain resp where eq: "searchSimilarChunks newVectorSearch readyGenerator demoDB ''cat'' None 5 = Inr resp"
    using demo_search [OF tokenize_cat] by blast
  have res: "results resp = rankChunks newVectorSearch demoDB
               (generateTFIDFVector readyGenerator ''cat'') (chunks demoDB) 5"
    using eq demo_search [OF tokenize_cat, of 5] by auto
  have "length (results resp) \<le> 5"
    using searchSimilarChunks_ranked [OF eq] by blast
  then show ?thesis
    using demo_rank [OF tokenize_cat] demo_similarities [OF tokenize_cat]
    by (simp add: eq res)
qed

section \<open>Properties of the hybrid search\<close>

lemma keywordLoop_sum:
  "keywordLoop host ks text s0 = Inr s \<Longrightarrow>
   s = s0 + (\<Sum>k\<leftarrow>ks. real (matchCount host k text) * (1 / 10))
   \<and> (\<forall>k \<in> set ks. regexMatchCount host k text = Matches (matchCount host k text))"
proof (induction ks arbitrary: s0)
  case Nil
  then show ?case by simp
next
  case (Cons k ks)
  from Cons.prems obtain n where n: "regexMatchCount host k text = Matches n"
    and rest: "keywordLoop host ks text (s0 + real n * (1 / 10)) = Inr s"
    by (auto split: rxOutcome.splits)
  have m: "matchCount host k text = n" by (simp add: matchCount_def n)
  from Cons.IH [OF rest] show ?case by (simp add: m n)
qed

lemma keywordSum_nonneg: "0 \<le> (\<Sum>k\<leftarrow>ks. real (matchCount host k text) * (1 / 10))"
  by (rule sum_list_nonneg) auto

lemma enhanceLoop_member:
  "enhanceLoop host ks rs = Inr hs \<Longrightarrow> h \<in> set hs \<Longrightarrow>
   keywordLoop host ks (toLowerCase (chunk_text (chunk h))) 0 = Inr (keywordScore h)
   \<and> combinedScore h = similarity h + keywordScore h
   \<and> (\<exists>r \<in> set rs. chunk r = chunk h \<and> similarity r = similarity h)"
proof (induction rs arbitrary: hs)
  case Nil
  then show ?case by simp
next
  case (Cons r rs)
  from Cons.prems(1) obtain kw hs' where kw: "keywordLoop host ks (toLowerCase (chunk_text (chunk r))) 0 = Inr kw"
    and hs': "enhanceLoop host ks rs = Inr hs'"
    and hs: "hs = \<lparr>chunk = chunk r, similarity = similarity r,
                     documentName = documentName r, resultUploadDate = resultUploadDate r,
                     keywordScore = kw, combinedScore = similarity r + kw\<rparr> # hs'"
    by (auto split: sum.splits)
  show ?case
  proof (cases "h \<in> set hs'")
    case True
    from Cons.IH [OF hs' True] show ?thesis by auto
  next
    case False
    then have "h = \<lparr>chunk = chunk r, similarity = similarity r,
                     documentName = documentName r, resultUploadDate = resultUploadDate r,
                     keywordScore = kw, combinedScore = similarity r + kw\<rparr>"
      using Cons.prems(2) hs by simp
    then show ?thesis using kw by simp
  qed
qed

lemma hybridSearch_results:
  assumes "hybridSearch host vs g db queryText docId topK = Inr resp"
  obtains vresp hs where "searchSimilarChunks vs g db queryText docId (topK * 2) = Inr vresp"
    and "enhanceLoop host (queryKeywords queryText) (results vresp) = Inr hs"
    and "results resp = take topK (sort_key (\<lambda>r. - combinedScore r) hs)"
  using assms by (auto simp: hybridSearch_def Let_def split: sum.splits)

text \<open>
  Whenever the hybrid search returns a response, every result in it has a keyword score
  that is the sum, over the query keywords, of one tenth of the number of matches of the
  keyword, read as a regular expression, in the lowercased chunk text; its similarity is
  the vector similarity of its chunk to the query embedding, its combined score is the
  similarity plus the keyword score, and the combined score is at least the similarity.
  This holds for every behaviour of the host on patterns outside the fragment.
\<close>

lemma hybridSearch_scores:
  assumes "hybridSearch host vs g db queryText docId topK = Inr resp"
  shows "\<forall>r \<in> set (results resp).
           keywordScore r
             = (\<Sum>k\<leftarrow>queryKeywords queryText.
                  real (matchCount host k (toLowerCase (chunk_text (chunk r)))) * (1 / 10))
           \<and> similarity r = chunkSimilarity (generateTFIDFVector g queryText) (chunk r)
           \<and> combinedScore r = similarity r + keywordScore r
           \<and> similarity r \<le> combinedScore r"
proof
  fix h assume h: "h \<in> set (results resp)"
  from assms obtain vresp hs
    where v: "searchSimilarChunks vs g db queryText docId (topK * 2) = Inr vresp"
      and e: "enhanceLoop host (queryKeywords queryText) (results vresp) = Inr hs"
      and r: "results resp = take topK (sort_key (\<lambda>r. - combinedScore r) hs)"
    by (rule hybridSearch_results)
  from h r have "h \<in> set hs" by (metis in_set_takeD set_sort)
  from enhanceLoop_member [OF e this]
  obtain r0 where kl: "keywordLoop host (queryKeywords queryText) (toLowerCase (chunk_text (chunk h))) 0
                       = Inr (keywordScore h)"
    and cs: "combinedScore h = similarity h + keywordScore h"
    and r0: "r0 \<in> set (results vresp)" "chunk r0 = chunk h" "similarity r0 = similarity h"
    by blast
  have ks: "keywordScore h
            = (\<Sum>k\<leftarrow>queryKeywords queryText.
                 real (matchCount host k (toLowerCase (chunk_text (chunk h)))) * (1 / 10))"
    using keywordLoop_sum [OF kl] by simp
  have "results vresp = rankChunks vs db (generateTFIDFVector g queryText)
                          (chunksToSearch db docId) (topK * 2)"
    using v by (rule searchSimilarChunks_results(1))
  with r0(1) have "r0 \<in> set (rankChunks vs db (generateTFIDFVector g queryText)
                          (chunksToSearch db docId) (topK * 2))"
    by simp
  from rankChunks_member [OF this]
  have "similarity r0 = chunkSimilarity (generateTFIDFVector g queryText) (chunk r0)"
    by simp
  then have sim: "similarity h = chunkSimilarity (generateTFIDFVector g queryText) (chunk h)"
    by (simp add: r0)
  have "0 \<le> keywordScore h"
    unfolding ks by (rule keywordSum_nonneg)
  then have "similarity h \<le> combinedScore h" by (simp add: cs)
  with ks sim cs
  show "keywordScore h
             = (\<Sum>k\<leftarrow>queryKeywords queryText.
                  real (matchCount host k (toLowerCase (chunk_text (chunk h)))) * (1 / 10))
           \<and> similarity h = chunkSimilarity (generateTFIDFVector g queryText) (chunk h)
           \<and> combinedScore h = similarity h + keywordScore h
           \<and> similarity h \<le> combinedScore h"
    by blast
qed

lemma demo_rank_full:
  assumes "tokenize text = [''cat'']"
  shows "rankChunks newVectorSearch demoDB (generateTFIDFVector readyGenerator text) (chunks demoDB) 10
         = [\<lparr>chunk = chunks demoDB ! 2, similarity = 1, documentName = ''pets.pdf'',
             resultUploadDate = Some 0\<rparr>,
            \<lparr>chunk = chunks demoDB ! 1, similarity = 3 / 10, documentName = ''pets.pdf'',
             resultUploadDate = Some 0\<rparr>]"
proof -
  have "map (\<lambda>c. (c, chunkSimilarity (generateTFIDFVector readyGenerator text) c)) (chunks demoDB)
        = zip (chunks demoDB) [29 / 100, 3 / 10, 1]"
    by (simp only: map_pair_zip demo_similarities [OF assms])
  then show ?thesis
    by (simp add: rankChunks_def Let_def newVectorSearch_def o_def)
       (simp add: demoDB_def enhanceResult_def)
qed

lemma queryKeywords_cat_q: "queryKeywords ''cat?'' = [''cat?'']"
  by (simp add: queryKeywords_def toLowerCase_def toLowerChar_def isSpace_def splitWs_def)

lemma regex_cat_q_care: "regexMatchCount host ''cat?'' ''a cat care'' = Matches 2"
  by code_simp

lemma regex_cat_q_dog: "regexMatchCount host ''cat?'' ''dog'' = Matches 0"
  by code_simp

lemma occurrences_cat_q_care: "countOccurrences ''cat?'' ''a cat care'' = 0"
  by code_simp

lemma lower_demo_texts: "toLowerCase ''a cat care'' = ''a cat care''" "toLowerCase ''dog'' = ''dog''"
  by (simp_all add: toLowerCase_def toLowerChar_def)

lemma demo_hybrid:
  "hybridSearch host newVectorSearch readyGenerator demoDB ''cat?'' None 5
   = Inr \<lparr>results =
            [\<lparr>chunk = chunks demoDB ! 2, similarity = 1, documentName = ''pets.pdf'',
              resultUploadDate = Some 0, keywordScore = 0, combinedScore = 1\<rparr>,
             \<lparr>chunk = chunks demoDB ! 1, similarity = 3 / 10, documentName = ''pets.pdf'',
              resultUploadDate = Some 0, keywordScore = 2 / 10, combinedScore = 5 / 10\<rparr>],
          query = ''cat?'', totalSearched = 3, hasResults = True\<rparr>"
proof -
  have t: "chunk_text (chunks demoDB ! 2) = ''dog''" "chunk_text (chunks demoDB ! Suc 0) = ''a cat care''"
    by (simp_all add: demoDB_def)
  show ?thesis
    by (simp add: hybridSearch_def demo_search [OF tokenize_cat_q] demo_rank_full [OF tokenize_cat_q]
        queryKeywords_cat_q t lower_demo_texts regex_cat_q_care regex_cat_q_dog)
qed

lemma care_similarity:
  assumes "tokenize text = [''cat'']"
  shows "map (chunkSimilarity (generateTFIDFVector readyGenerator text)) (chunks careDB) = [1]"
proof -
  note h = embedding_of_cat_head [OF assms readyGenerator_fields(2)]
  have "cosineSimilarity (generateTFIDFVector readyGenerator text) [1] = 1"
    by (rule cosine_head_1 [OF h(1,2)])
  then show ?thesis by (simp add: careDB_def chunkSimilarity_def)
qed

lemma care_rank:
  assumes "tokenize text = [''cat'']"
  shows "rankChunks newVectorSearch careDB (generateTFIDFVector readyGenerator text) (chunks careDB) 10
         = [\<lparr>chunk = chunks careDB ! 0, similarity = 1, documentName = ''pets.pdf'',
             resultUploadDate = Some 0\<rparr>]"
proof -
  have "map (\<lambda>c. (c, chunkSimilarity (generateTFIDFVector readyGenerator text) c)) (chunks careDB)
        = zip (chunks careDB) [1]"
    by (simp only: map_pair_zip care_similarity [OF assms])
  then show ?thesis
    by (simp add: rankChunks_def Let_def newVectorSearch_def o_def)
       (simp add: careDB_def enhanceResult_def)
qed

lemma care_search:
  assumes "tokenize text = [''cat'']"
  shows "searchSimilarChunks newVectorSearch readyGenerator careDB text None k
         = Inr \<lparr>results = rankChunks newVectorSearch careDB (generateTFIDFVector readyGenerator text)
                            (chunks careDB) k,
                query = text, totalSearched = 1,
                hasResults = (0 < length (rankChunks newVectorSearch careDB
                                (generateTFIDFVector readyGenerator text) (chunks careDB) k))\<rparr>"
proof -
  have "chunksToSearch careDB None = chunks careDB"
    by (simp add: chunksToSearch_def getAllChunks_def)
  moreover have "length (chunks careDB) = 1" by (simp add: careDB_def)
  moreover from this have "chunks careDB \<noteq> []" by auto
  ultimately show ?thesis
    by (simp add: searchSimilarChunks_def generateEmbedding_def readyGenerator_fields Let_def)
qed

lemma care_hybrid:
  "hybridSearch host newVectorSearch readyGenerator careDB ''cat?'' None 5
   = Inr \<lparr>results =
            [\<lparr>chunk = chunks careDB ! 0, similarity = 1, documentName = ''pets.pdf'',
              resultUploadDate = Some 0, keywordScore = 2 / 10, combinedScore = 12 / 10\<rparr>],
          query = ''cat?'', totalSearched = 1, hasResults = True\<rparr>"
proof -
  have t: "chunk_text (chunks careDB ! 0) = ''a cat care''"
    by (simp add: careDB_def)
  show ?thesis
    by (simp add: hybridSearch_def care_search [OF tokenize_cat_q] care_rank [OF tokenize_cat_q]
        queryKeywords_cat_q t lower_demo_texts regex_cat_q_care)
qed

text \<open>
  C7, the code at a query. For the query \<open>cat?\<close> against a stored chunk with the text
  \<open>a cat care\<close> and similarity 1, the only keyword \<open>cat?\<close> does not occur in the text, so
  the sum of the occurrence counts times 0.1 is 0. The code compiles the keyword as a
  regular expression, counts two matches, and returns the keyword score 0.2 and the
  combined score 1.2, which is the similarity plus the keyword score.
\<close>

theorem hybridSearch_keywordScore_counts_matches:
  "map (\<lambda>r. (similarity r, keywordScore r, combinedScore r))
     (results (projr (hybridSearch host newVectorSearch readyGenerator careDB ''cat?'' None 5)))
     = [(1, 2 / 10, 12 / 10)]
   \<and> queryKeywords ''cat?'' = [''cat?'']
   \<and> toLowerCase (chunk_text (chunks careDB ! 0)) = ''a cat care''
   \<and> (\<Sum>k\<leftarrow>queryKeywords ''cat?''. real (countOccurrences k ''a cat care'') * (1 / 10)) = 0"
proof -
  have r: "map (\<lambda>r. (similarity r, keywordScore r, combinedScore r))
     (results (projr (hybridSearch host newVectorSearch readyGenerator careDB ''cat?'' None 5)))
     = [(1, 2 / 10, 12 / 10)]"
    by (simp add: care_hybrid)
  have t: "toLowerCase (chunk_text (chunks careDB ! 0)) = ''a cat care''"
    by (simp add: careDB_def lower_demo_texts)
  have s: "(\<Sum>k\<leftarrow>queryKeywords ''cat?''. real (countOccurrences k ''a cat care'') * (1 / 10)) = 0"
    by (simp add: queryKeywords_cat_q occurrences_cat_q_care)
  from r queryKeywords_cat_q t s show ?thesis by (intro conjI)
qed

lemma tokenize_cpp_cat: "tokenize ''c++ cat'' = [''cat'']"
  by (simp add: tokenize_def toLowerCase_def toLowerChar_def isWordChar_def isSpace_def splitWs_def)

lemma queryKeywords_cpp_cat: "queryKeywords ''c++ cat'' = [''c++'', ''cat'']"
  by (simp add: queryKeywords_def toLowerCase_def toLowerChar_def isSpace_def splitWs_def)

lemma regex_cpp: "regexMatchCount host ''c++'' text = ThrowsSyntaxError"
  by (simp add: regexMatchCount_def isQuantChar_def isOtherSyntaxChar_def consItem_def)

lemma demo_hybrid_cpp:
  "hybridSearch host newVectorSearch readyGenerator demoDB ''c++ cat'' None 5 = Inl SyntaxError"
  by (simp add: hybridSearch_def demo_search [OF tokenize_cpp_cat] demo_rank_full [OF tokenize_cpp_cat]
      queryKeywords_cpp_cat regex_cpp)

text \<open>
  C10, the code at two queries. The keywords of a query are its lowercased pieces between
  white space that are longer than two characters, punctuation included, where the
  encoder's tokenization drops the punctuation. Each keyword is compiled as a regular
  expression. For the query \<open>cat?\<close> the keyword \<open>cat?\<close> does not occur in the chunk text
  \<open>a cat care\<close>, yet the pattern matches twice (\<open>cat\<close> and the \<open>ca\<close> of \<open>care\<close>) and the
  keyword score is 0.2. For the query \<open>c++ cat\<close> the keyword \<open>c++\<close> is not a valid pattern
  and the hybrid search ends with the syntax error.
\<close>

theorem hybridSearch_keyword_is_pattern:
  "queryKeywords ''cat?'' = [''cat?''] \<and> tokenize ''cat?'' = [''cat'']
   \<and> toLowerCase (chunk_text (chunks demoDB ! 1)) = ''a cat care''
   \<and> countOccurrences ''cat?'' ''a cat care'' = 0
   \<and> regexMatchCount host ''cat?'' ''a cat care'' = Matches 2
   \<and> map (\<lambda>r. (chunkIndex (chunk r), keywordScore r))
        (results (projr (hybridSearch host newVectorSearch readyGenerator demoDB ''cat?'' None 5)))
      = [(2, 0), (1, 2 / 10)]
   \<and> queryKeywords ''c++ cat'' = [''c++'', ''cat'']
   \<and> hybridSearch host newVectorSearch readyGenerator demoDB ''c++ cat'' None 5 = Inl SyntaxError"
proof -
  have t: "toLowerCase (chunk_text (chunks demoDB ! 1)) = ''a cat care''"
    by (simp add: demoDB_def lower_demo_texts)
  have k: "map (\<lambda>r. (chunkIndex (chunk r), keywordScore r))
        (results (projr (hybridSearch host newVectorSearch readyGenerator demoDB ''cat?'' None 5)))
      = [(2, 0), (1, 2 / 10)]"
    by (simp add: demo_hybrid) (simp add: demoDB_def)
  from queryKeywords_cat_q tokenize_cat_q t occurrences_cat_q_care regex_cat_q_care k
    queryKeywords_cpp_cat demo_hybrid_cpp
  show ?thesis by (intro conjI)
qed

section \<open>Properties of the chunker\<close>

lemma splitWsFrom_nospace:
  "(\<forall>c \<in> set cur. \<not> isSpace c) \<Longrightarrow> w \<in> set (splitWsFrom cur s) \<Longrightarrow> c \<in> set w \<Longrightarrow> \<not> isSpace c"
proof (induction cur s rule: splitWsFrom.induct)
  case (1 cur)
  then show ?case by auto
next
  case (2 cur d ds)
  show ?case
  proof (cases "isSpace d")
    case True
    with "2.prems" have "w = rev cur \<or> w \<in> set (splitWsFrom [] (dropWhile isSpace ds))"
      by auto
    then show ?thesis
    proof
      assume "w = rev cur"
      with "2.prems" show ?thesis by auto
    next
      assume "w \<in> set (splitWsFrom [] (dropWhile isSpace ds))"
      with "2.IH"(1) [OF True] "2.prems"(3) show ?thesis by simp
    qed
  next
    case False
    with "2.prems" have "w \<in> set (splitWsFrom (d # cur) ds)" by auto
    moreover have "\<forall>c \<in> set (d # cur). \<not> isSpace c" using False "2.prems"(1) by simp
    ultimately show ?thesis using "2.IH"(2) [OF False] "2.prems"(3) by blast
  qed
qed

lemma chunk_words_ok: "wordsOK (chunkWords text)"
  unfolding wordsOK_def splitWs_def chunkWords_def
  using splitWsFrom_nospace [of "[]" _ "text"] by auto

lemma joinSpace_nonempty: "ws \<noteq> [] \<Longrightarrow> \<forall>w \<in> set ws. w \<noteq> [] \<Longrightarrow> joinSpace ws \<noteq> []"
  by (induction ws rule: joinSpace.induct) simp_all

lemma joinSpace_hd: "ws \<noteq> [] \<Longrightarrow> \<forall>w \<in> set ws. w \<noteq> [] \<Longrightarrow> hd (joinSpace ws) = hd (hd ws)"
  by (induction ws rule: joinSpace.induct) simp_all

lemma joinSpace_last: "ws \<noteq> [] \<Longrightarrow> \<forall>w \<in> set ws. w \<noteq> [] \<Longrightarrow> last (joinSpace ws) = last (last ws)"
  by (induction ws rule: joinSpace.induct) (simp_all add: joinSpace_nonempty)

lemma trim_id:
  assumes "s \<noteq> []" "\<not> isSpace (hd s)" "\<not> isSpace (last s)"
  shows "trim s = s"
proof -
  have "dropWhile isSpace s = s"
    using assms(1,2) by (cases s) simp_all
  moreover have "dropWhile isSpace (rev s) = rev s"
    using assms(1,3) by (cases "rev s") (simp_all add: last_rev [symmetric] hd_rev)
  ultimately show ?thesis by (simp add: trim_def)
qed

lemma trim_joinSpace:
  assumes "wordsOK ws" "ws \<noteq> []"
  shows "trim (joinSpace ws) = joinSpace ws" and "joinSpace ws \<noteq> []"
proof -
  have ne: "\<forall>w \<in> set ws. w \<noteq> []" using assms(1) by (simp add: wordsOK_def)
  show j: "joinSpace ws \<noteq> []" using assms(2) ne by (rule joinSpace_nonempty)
  have "hd ws \<in> set ws" "last ws \<in> set ws" using assms(2) by simp_all
  then have "\<not> isSpace (hd (hd ws))" "\<not> isSpace (last (last ws))"
    using assms(1) by (auto simp: wordsOK_def)
  then have "\<not> isSpace (hd (joinSpace ws))" "\<not> isSpace (last (joinSpace ws))"
    using assms(2) ne by (simp_all add: joinSpace_hd joinSpace_last)
  with j show "trim (joinSpace ws) = joinSpace ws" by (intro trim_id)
qed

lemma slice_window:
  assumes "0 \<le> s" "s < e" "e \<le> int (length xs)"
  shows "slice xs s e = take (nat (e - s)) (drop (nat s) xs)"
    and "slice xs s e \<noteq> []"
    and "set (slice xs s e) \<subseteq> set xs"
    and "length (slice xs s e) = nat (e - s)"
proof -
  have si: "sliceIndex (length xs) s = nat s" "sliceIndex (length xs) e = nat e"
    using assms by (simp_all add: sliceIndex_def min_def)
  have d: "nat e - nat s = nat (e - s)" using assms by simp
  show eq: "slice xs s e = take (nat (e - s)) (drop (nat s) xs)"
    by (simp add: slice_def Let_def si d)
  have len: "length (take (nat (e - s)) (drop (nat s) xs)) = nat (e - s)"
    using assms by simp
  show "length (slice xs s e) = nat (e - s)" by (simp only: eq len)
  then show "slice xs s e \<noteq> []" using assms by auto
  show "set (slice xs s e) \<subseteq> set xs"
    unfolding eq by (meson set_take_subset set_drop_subset subset_trans)
qed

lemma window_emitted:
  assumes "wordsOK ws" "0 \<le> s" "s < e" "e \<le> int (length ws)"
  shows "trim (joinSpace (slice ws s e)) = joinSpace (slice ws s e)"
    and "0 < length (trim (joinSpace (slice ws s e)))"
proof -
  have ok: "wordsOK (slice ws s e)"
    using assms(1) slice_window(3) [OF assms(2-4)] by (auto simp: wordsOK_def)
  have ne: "slice ws s e \<noteq> []" by (rule slice_window(2) [OF assms(2-4)])
  show t: "trim (joinSpace (slice ws s e)) = joinSpace (slice ws s e)"
    by (rule trim_joinSpace(1) [OF ok ne])
  show "0 < length (trim (joinSpace (slice ws s e)))"
    using trim_joinSpace(2) [OF ok ne] by (simp add: t)
qed


declare chunkLoop.simps [simp del] chunkSpans.simps [simp del]

lemma windowEnd_bounds:
  assumes "1 \<le> maxChunkSize p" "start < int (length ws)"
  shows "start < windowEnd p ws start" "windowEnd p ws start \<le> int (length ws)"
  using assms by (simp_all add: windowEnd_def)

lemma nextStart_bounds:
  "start < nextStart p start"
  "1 \<le> maxChunkSize p \<Longrightarrow> 0 \<le> chunkOverlap p \<Longrightarrow> nextStart p start \<le> start + maxChunkSize p"
  by (simp_all add: nextStart_def)

lemma chunkLoop_done: "\<not> start < int (length ws) \<Longrightarrow> chunkLoop p d ws ci start = []"
  by (subst chunkLoop.simps) simp

lemma chunkSpans_done: "\<not> start < int (length ws) \<Longrightarrow> chunkSpans p ws start = []"
  by (subst chunkSpans.simps) simp

lemma window_nonempty:
  assumes "wordsOK ws" "0 \<le> s" "s < e" "e \<le> int (length ws)"
  shows "joinSpace (slice ws s e) \<noteq> []"
  using window_emitted [OF assms] by auto

lemma chunkLoop_step:
  assumes "wordsOK ws" "1 \<le> maxChunkSize p" "0 \<le> start" "start < int (length ws)"
  shows "chunkLoop p d ws ci start =
     \<lparr>documentId = d, chunkIndex = ci,
      chunk_text = joinSpace (slice ws start (windowEnd p ws start)),
      tokenCount = nat (windowEnd p ws start - start), embedding = None\<rparr>
     # (if int (length ws) \<le> windowEnd p ws start then []
        else chunkLoop p d ws (ci + 1) (nextStart p start))"
proof -
  note b = windowEnd_bounds [OF assms(2,4)]
  note w = window_emitted [OF assms(1,3) b]
  note l = slice_window(4) [OF assms(3) b]
  note ne = window_nonempty [OF assms(1,3) b]
  show ?thesis
    by (subst chunkLoop.simps)
       (simp add: Let_def assms(4) w ne l windowEnd_def [symmetric] nextStart_def [symmetric])
qed

lemma chunkSpans_step:
  assumes "wordsOK ws" "1 \<le> maxChunkSize p" "0 \<le> start" "start < int (length ws)"
  shows "chunkSpans p ws start =
     (start, windowEnd p ws start)
     # (if int (length ws) \<le> windowEnd p ws start then []
        else chunkSpans p ws (nextStart p start))"
proof -
  note b = windowEnd_bounds [OF assms(2,4)]
  note w = window_emitted [OF assms(1,3) b]
  note ne = window_nonempty [OF assms(1,3) b]
  show ?thesis
    by (subst chunkSpans.simps)
       (simp add: Let_def assms(4) w ne windowEnd_def [symmetric] nextStart_def [symmetric])
qed

lemma chunkLoop_index:
  assumes "wordsOK ws" "1 \<le> maxChunkSize p"
  shows "0 \<le> start \<Longrightarrow>
         map chunkIndex (chunkLoop p d ws ci start) = [ci ..< ci + length (chunkLoop p d ws ci start)]"
proof (induction "nat (int (length ws) - start)" arbitrary: start ci rule: less_induct)
  case less
  show ?case
  proof (cases "start < int (length ws)")
    case False
    then show ?thesis by (simp add: chunkLoop_done)
  next
    case True
    note step = chunkLoop_step [OF assms less.prems True, of d ci]
    show ?thesis
    proof (cases "int (length ws) \<le> windowEnd p ws start")
      case True
      then show ?thesis by (simp add: step)
    next
      case False
      have "nat (int (length ws) - nextStart p start) < nat (int (length ws) - start)"
        using True nextStart_bounds(1) [of start p] by linarith
      moreover have "0 \<le> nextStart p start"
        using less.prems nextStart_bounds(1) [of start p] by linarith
      ultimately have "map chunkIndex (chunkLoop p d ws (ci + 1) (nextStart p start))
            = [ci + 1 ..< ci + 1 + length (chunkLoop p d ws (ci + 1) (nextStart p start))]"
        by (rule less.hyps)
      moreover have "[ci ..< ci + Suc n] = ci # [ci + 1 ..< ci + 1 + n]" for n
        by (subst upt_rec) simp
      moreover have "chunkLoop p d ws ci start
            = \<lparr>documentId = d, chunkIndex = ci,
                chunk_text = joinSpace (slice ws start (windowEnd p ws start)),
                tokenCount = nat (windowEnd p ws start - start), embedding = None\<rparr>
              # chunkLoop p d ws (ci + 1) (nextStart p start)"
        using False by (simp add: step)
      ultimately show ?thesis by (simp del: upt_Suc)
    qed
  qed
qed

lemma chunkLoop_spans:
  assumes "wordsOK ws" "1 \<le> maxChunkSize p"
  shows "0 \<le> start \<Longrightarrow>
         map (\<lambda>c. (chunk_text c, tokenCount c)) (chunkLoop p d ws ci start)
         = map (\<lambda>se. (joinSpace (slice ws (fst se) (snd se)), nat (snd se - fst se)))
             (chunkSpans p ws start)"
proof (induction "nat (int (length ws) - start)" arbitrary: start ci rule: less_induct)
  case less
  show ?case
  proof (cases "start < int (length ws)")
    case False
    then show ?thesis by (simp add: chunkLoop_done chunkSpans_done)
  next
    case True
    note step = chunkLoop_step [OF assms less.prems True, of d ci]
    note sstep = chunkSpans_step [OF assms less.prems True]
    show ?thesis
    proof (cases "int (length ws) \<le> windowEnd p ws start")
      case True
      then show ?thesis by (simp add: step sstep)
    next
      case False
      have "nat (int (length ws) - nextStart p start) < nat (int (length ws) - start)"
        using True nextStart_bounds(1) [of start p] by linarith
      moreover have "0 \<le> nextStart p start"
        using less.prems nextStart_bounds(1) [of start p] by linarith
      ultimately have "map (\<lambda>c. (chunk_text c, tokenCount c)) (chunkLoop p d ws (ci + 1) (nextStart p start))
         = map (\<lambda>se. (joinSpace (slice ws (fst se) (snd se)), nat (snd se - fst se)))
             (chunkSpans p ws (nextStart p start))"
        by (rule less.hyps)
      then show ?thesis using False by (simp add: step sstep)
    qed
  qed
qed

lemma chunkSpans_wellformed:
  assumes "wordsOK ws" "1 \<le> maxChunkSize p"
  shows "0 \<le> start \<Longrightarrow> se \<in> set (chunkSpans p ws start) \<Longrightarrow>
         start \<le> fst se \<and> fst se < snd se \<and> snd se \<le> int (length ws)"
proof (induction "nat (int (length ws) - start)" arbitrary: start rule: less_induct)
  case less
  show ?case
  proof (cases "start < int (length ws)")
    case False
    with less.prems show ?thesis by (simp add: chunkSpans_done)
  next
    case True
    note sstep = chunkSpans_step [OF assms less.prems(1) True]
    note b = windowEnd_bounds [OF assms(2) True]
    show ?thesis
    proof (cases "se = (start, windowEnd p ws start)")
      case True
      then show ?thesis using b by simp
    next
      case False
      with less.prems(2) have rest: "\<not> int (length ws) \<le> windowEnd p ws start"
        "se \<in> set (chunkSpans p ws (nextStart p start))"
        by (auto simp: sstep split: if_splits)
      have "nat (int (length ws) - nextStart p start) < nat (int (length ws) - start)"
        using True nextStart_bounds(1) [of start p] by linarith
      moreover have "0 \<le> nextStart p start"
        using less.prems(1) nextStart_bounds(1) [of start p] by linarith
      ultimately have "nextStart p start \<le> fst se \<and> fst se < snd se \<and> snd se \<le> int (length ws)"
        using rest(2) by (rule less.hyps)
      then show ?thesis using nextStart_bounds(1) [of start p] by linarith
    qed
  qed
qed

lemma chunkSpans_cover:
  assumes "wordsOK ws" "1 \<le> maxChunkSize p" "0 \<le> chunkOverlap p"
  shows "0 \<le> start \<Longrightarrow> start \<le> i \<Longrightarrow> i < int (length ws) \<Longrightarrow>
         \<exists>se \<in> set (chunkSpans p ws start). fst se \<le> i \<and> i < snd se"
proof (induction "nat (int (length ws) - start)" arbitrary: start rule: less_induct)
  case less
  have lt: "start < int (length ws)" using less.prems by linarith
  note sstep = chunkSpans_step [OF assms(1,2) less.prems(1) lt]
  show ?case
  proof (cases "i < windowEnd p ws start")
    case True
    then show ?thesis using less.prems(2) by (simp add: sstep)
  next
    case False
    then have notend: "\<not> int (length ws) \<le> windowEnd p ws start"
      using less.prems(3) by linarith
    then have "windowEnd p ws start = start + maxChunkSize p"
      by (simp add: windowEnd_def min_def split: if_splits)
    then have ni: "nextStart p start \<le> i"
      using False nextStart_bounds(2) [OF assms(2,3), of start] by linarith
    have "nat (int (length ws) - nextStart p start) < nat (int (length ws) - start)"
      using lt nextStart_bounds(1) [of start p] by linarith
    moreover have "0 \<le> nextStart p start"
      using less.prems(1) nextStart_bounds(1) [of start p] by linarith
    ultimately have "\<exists>se \<in> set (chunkSpans p ws (nextStart p start)). fst se \<le> i \<and> i < snd se"
      using ni less.prems(3) by (rule less.hyps)
    then show ?thesis using notend by (auto simp: sstep)
  qed
qed

lemma chunkSpans_count:
  assumes "wordsOK ws" "1 \<le> maxChunkSize p"
  shows "0 \<le> start \<Longrightarrow> length (chunkSpans p ws start) \<le> nat (int (length ws) - start)"
proof (induction "nat (int (length ws) - start)" arbitrary: start rule: less_induct)
  case less
  show ?case
  proof (cases "start < int (length ws)")
    case False
    then show ?thesis by (simp add: chunkSpans_done)
  next
    case True
    note sstep = chunkSpans_step [OF assms less.prems True]
    show ?thesis
    proof (cases "int (length ws) \<le> windowEnd p ws start")
      case True
      then show ?thesis using \<open>start < int (length ws)\<close> by (simp add: sstep)
    next
      case False
      have m: "nat (int (length ws) - nextStart p start) < nat (int (length ws) - start)"
        using True nextStart_bounds(1) [of start p] by linarith
      moreover have "0 \<le> nextStart p start"
        using less.prems nextStart_bounds(1) [of start p] by linarith
      ultimately have "length (chunkSpans p ws (nextStart p start)) \<le> nat (int (length ws) - nextStart p start)"
        by (rule less.hyps)
      moreover have "length (chunkSpans p ws start) = Suc (length (chunkSpans p ws (nextStart p start)))"
        using False by (simp add: sstep)
      ultimately show ?thesis using m by linarith
    qed
  qed
qed

text \<open>
  C4. The chunker is a total function: its loop is defined with a measure, the number of
  tokens from the start index on, that every iteration decreases, so it ends on every
  text, for every overlap and also when the overlap is not smaller than the chunk size.
  For a chunk size of at least 1 and an overlap of at least 0 it emits at most one chunk
  per token, the chunk indices are 0, 1, 2 and so on in order, every chunk is the text of
  a non-empty window of tokens, and every token position lies in the window of some chunk.
\<close>

theorem chunkText_covers:
  assumes "1 \<le> maxChunkSize p" "0 \<le> chunkOverlap p"
  shows "map chunkIndex (chunkText p text docId) = [0 ..< length (chunkText p text docId)]
    \<and> length (chunkText p text docId) \<le> length (chunkWords text)
    \<and> map (\<lambda>c. (chunk_text c, tokenCount c)) (chunkText p text docId)
        = map (\<lambda>se. (joinSpace (slice (chunkWords text) (fst se) (snd se)), nat (snd se - fst se)))
            (chunkSpans p (chunkWords text) 0)
    \<and> (\<forall>se \<in> set (chunkSpans p (chunkWords text) 0).
          0 \<le> fst se \<and> fst se < snd se \<and> snd se \<le> int (length (chunkWords text)))
    \<and> (\<forall>i < length (chunkWords text).
          \<exists>se \<in> set (chunkSpans p (chunkWords text) 0). fst se \<le> int i \<and> int i < snd se)"
proof (intro conjI ballI allI impI)
  note ok = chunk_words_ok [of "text"]
  show idx: "map chunkIndex (chunkText p text docId) = [0 ..< length (chunkText p text docId)]"
    using chunkLoop_index [OF ok assms(1), of 0 docId 0] by (simp add: chunkText_def)
  show link: "map (\<lambda>c. (chunk_text c, tokenCount c)) (chunkText p text docId)
        = map (\<lambda>se. (joinSpace (slice (chunkWords text) (fst se) (snd se)), nat (snd se - fst se)))
            (chunkSpans p (chunkWords text) 0)"
    using chunkLoop_spans [OF ok assms(1), of 0 docId 0] by (simp add: chunkText_def)
  have "length (chunkText p text docId) = length (chunkSpans p (chunkWords text) 0)"
    using arg_cong [OF link, of length] by simp
  then show "length (chunkText p text docId) \<le> length (chunkWords text)"
    using chunkSpans_count [OF ok assms(1), of 0] by simp
  show "0 \<le> fst se" "fst se < snd se" "snd se \<le> int (length (chunkWords text))"
    if "se \<in> set (chunkSpans p (chunkWords text) 0)" for se
    using chunkSpans_wellformed [OF ok assms(1) _ that] by simp_all
  show "\<exists>se \<in> set (chunkSpans p (chunkWords text) 0). fst se \<le> int i \<and> int i < snd se"
    if "i < length (chunkWords text)" for i
    using chunkSpans_cover [OF ok assms, of 0 "int i"] that by simp
qed

lemma demo_chunk_words: "chunkWords ''a b c d e'' = [''a'', ''b'', ''c'', ''d'', ''e'']"
  by code_simp

lemma demo_chunk_spans:
  "chunkSpans \<lparr>maxChunkSize = 3, chunkOverlap = 5\<rparr> (chunkWords ''a b c d e'') 0
   = [(0, 3), (1, 4), (2, 5)]"
  by code_simp

lemma demo_chunk_texts:
  "map chunk_text (chunkText \<lparr>maxChunkSize = 3, chunkOverlap = 5\<rparr> ''a b c d e'' 7)
   = [''a b c'', ''b c d'', ''c d e'']"
  by code_simp

theorem chunkText_covers_witness:
  "(1::int) \<le> maxChunkSize \<lparr>maxChunkSize = 3, chunkOverlap = 5\<rparr>
   \<and> (0::int) \<le> chunkOverlap \<lparr>maxChunkSize = 3, chunkOverlap = 5\<rparr>
   \<and> map chunk_text (chunkText \<lparr>maxChunkSize = 3, chunkOverlap = 5\<rparr> ''a b c d e'' 7)
      = [''a b c'', ''b c d'', ''c d e'']
   \<and> map chunkIndex (chunkText \<lparr>maxChunkSize = 3, chunkOverlap = 5\<rparr> ''a b c d e'' 7) = [0, 1, 2]
   \<and> chunkSpans \<lparr>maxChunkSize = 3, chunkOverlap = 5\<rparr> (chunkWords ''a b c d e'') 0
      = [(0, 3), (1, 4), (2, 5)]"
proof -
  let ?p = "\<lparr>maxChunkSize = 3, chunkOverlap = 5\<rparr>"
  have h1: "1 \<le> maxChunkSize ?p" and h2: "0 \<le> chunkOverlap ?p" by simp_all
  have len: "length (chunkText ?p ''a b c d e'' 7) = 3"
    using arg_cong [OF demo_chunk_texts, of length] by simp
  have "map chunkIndex (chunkText ?p ''a b c d e'' 7) = [0 ..< length (chunkText ?p ''a b c d e'' 7)]"
    using chunkText_covers [OF h1 h2, of "''a b c d e''" 7] by blast
  then have idx: "map chunkIndex (chunkText ?p ''a b c d e'' 7) = [0, 1, 2]"
    by (simp add: len upt_3)
  from h1 h2 demo_chunk_texts idx demo_chunk_spans show ?thesis by (intro conjI)
qed

lemma spec_example_spans:
  "chunkSpans newPDFProcessor (replicate 1000 ''w'') 0 = [(0, 500), (450, 950), (900, 1000)]"
  by code_simp

section \<open>Keywords without pattern characters\<close>

text \<open>
  On a keyword that has no character with a meaning in a regular expression the number of
  matches is the number of occurrences of the keyword as a substring, counted from left
  to right without overlap.
\<close>

declare countMatches.simps [simp del]

lemma parseRx_plain: "plainKeyword k \<Longrightarrow> parseRx k = Pattern (map (\<lambda>c. (Lit c, Once)) k)"
proof (induction k rule: parseRx.induct)
  case 1
  show ?case by simp
next
  case (2 c)
  then show ?case by (simp add: plainKeyword_def atomOf_def)
next
  case (3 c q rest)
  from "3.prems" have c: "\<not> isQuantChar c" "\<not> isOtherSyntaxChar c" "c \<noteq> CHR ''.''"
    and q: "\<not> isQuantChar q" and r: "plainKeyword (q # rest)"
    by (simp_all add: plainKeyword_def)
  from "3.IH"(2) [OF c(1,2) q r] show ?case
    using c q by (simp add: consItem_def atomOf_def)
qed

lemma matchHere_plain:
  "matchHere (map (\<lambda>c. (Lit c, Once)) k) s
   = (if take (length k) s = k then Some (drop (length k) s) else None)"
proof (induction k arbitrary: s)
  case Nil
  show ?case by simp
next
  case (Cons c k)
  show ?case
  proof (cases s)
    case Nil
    then show ?thesis by simp
  next
    case (Cons d ds)
    then show ?thesis using Cons.IH [of ds] by auto
  qed
qed

lemma countMatches_plain:
  assumes "k \<noteq> []"
  shows "countMatches (map (\<lambda>c. (Lit c, Once)) k) s = countOccurrences k s"
proof (induction s rule: length_induct)
  case (1 s)
  let ?its = "map (\<lambda>c. (Lit c, Once)) k"
  show ?case
  proof (cases s)
    case Nil
    then show ?thesis using assms
      by (subst countMatches.simps) (simp add: matchHere_plain)
  next
    case (Cons c cs)
    then have ne: "s \<noteq> []" by simp
    show ?thesis
    proof (cases "take (length k) s = k")
      case True
      then have "length (take (length k) s) = length k"
        by simp
      then have "length k \<le> length s"
        by simp
      moreover have "Suc 0 \<le> length k" using assms by (cases k) simp_all
      ultimately have m: "max (length s - length (drop (length k) s)) 1 = length k"
        by (simp add: max_def)
      have "length (drop (length k) s) < length s"
        unfolding Cons using assms by (cases k) simp_all
      then have ih: "countMatches ?its (drop (length k) s) = countOccurrences k (drop (length k) s)"
        using "1.IH" by blast
      have "matchHere ?its s = Some (drop (length k) s)"
        using True by (simp add: matchHere_plain)
      then have "countMatches ?its s = 1 + countMatches ?its (drop (length k) s)"
        using ne by (subst countMatches.simps) (simp only: option.case if_False m)
      moreover have "countOccurrences k s = 1 + countOccurrences k (drop (length k) s)"
        using True assms unfolding Cons by simp
      ultimately show ?thesis using ih by simp
    next
      case False
      have ih: "countMatches ?its cs = countOccurrences k cs"
        using "1.IH" Cons by simp
      have "matchHere ?its s = None"
        using False by (simp add: matchHere_plain)
      then have "countMatches ?its s = countMatches ?its (tl s)"
        using ne by (subst countMatches.simps) (simp only: option.case if_False)
      moreover have "countOccurrences k s = countOccurrences k cs"
        using False unfolding Cons by simp
      ultimately show ?thesis using ih by (simp add: Cons)
    qed
  qed
qed

lemma regexMatchCount_plain:
  "plainKeyword k \<Longrightarrow> k \<noteq> [] \<Longrightarrow> regexMatchCount host k s = Matches (countOccurrences k s)"
  by (simp add: regexMatchCount_def parseRx_plain countMatches_plain)

end
